theory Spec2Isabelle
  imports Complex_Main "HOL-Library.Word" "HOL-Library.Log_Nat" "HOL-Library.AList"
begin

unbundle bit_operations_syntax

section \<open>The generation worker (pointGenerator.worker.ts)\<close>

text \<open>
  JavaScript numbers are IEEE doubles. The model keeps three kinds of them apart:
  \<^item> counts, ids and byte sizes are integers (\<open>int\<close>, \<open>nat\<close>); where the source's product
    can leave the range in which doubles are exact (the seed), the rounding to a double is
    written out (\<open>fl53\<close>);
  \<^item> the generator's state is a 32-bit pattern (\<open>32 word\<close>), as the bitwise operators of the
    source make it;
  \<^item> the values of the curves are numbers whose finite ones are \<open>real\<close>: the rounding of each
    double operation is not modelled; the rounding of a store into a \<open>Float32Array\<close> is
    (\<open>fround\<close>).
\<close>

subsection \<open>Configuration\<close>

definition MAX_POINTS :: int where "MAX_POINTS = 10000000"
definition MAX_LINES :: int where "MAX_LINES = 1000"
definition MAX_BYTES :: int where "MAX_BYTES = 512 * 1024 * 1024"

subsection \<open>Integer conversions of the language\<close>

text \<open>\<open>n | 0\<close> on an integer-valued number: the value modulo \<open>2^32\<close>, read as signed.\<close>

definition to_int32 :: "int \<Rightarrow> int" where
  "to_int32 n = sint (word_of_int n :: 32 word)"

text \<open>
  The double nearest to a natural number (ties to the even significand): numbers below
  \<open>2^53\<close> are doubles; above, the low bits beyond the 53-bit significand are rounded off.
\<close>

definition fl53 :: "nat \<Rightarrow> nat" where
  "fl53 n =
     (if n < 2 ^ 53 then n
      else let e = floorlog 2 n - 53;
               q = n div 2 ^ e;
               r = n mod 2 ^ e
           in if 2 * r > 2 ^ e \<or> (2 * r = 2 ^ e \<and> odd q) then (q + 1) * 2 ^ e else q * 2 ^ e)"

subsection \<open>Numbers\<close>

text \<open>
  A number of the language: a finite one, \<open>NaN\<close>, or an infinity. Then \<open>a < b\<close>, and
  \<open>n * a\<close> and \<open>n + b\<close> for finite \<open>a\<close> and \<open>b\<close>.
\<close>

datatype number = Finite real | NaN | PosInf | NegInf

fun num_less :: "number \<Rightarrow> number \<Rightarrow> bool" where
  "num_less (Finite a) (Finite b) = (a < b)"
| "num_less (Finite a) PosInf = True"
| "num_less NegInf (Finite b) = True"
| "num_less NegInf PosInf = True"
| "num_less _ _ = False"

fun num_times :: "number \<Rightarrow> real \<Rightarrow> number" where
  "num_times (Finite x) a = Finite (x * a)"
| "num_times NaN a = NaN"
| "num_times PosInf a = (if a > 0 then PosInf else if a < 0 then NegInf else NaN)"
| "num_times NegInf a = (if a > 0 then NegInf else if a < 0 then PosInf else NaN)"

fun num_plus :: "number \<Rightarrow> real \<Rightarrow> number" where
  "num_plus (Finite x) b = Finite (x + b)"
| "num_plus NaN b = NaN"
| "num_plus PosInf b = PosInf"
| "num_plus NegInf b = NegInf"

text \<open>
  \<open>Math.fround\<close>, the conversion that a store into a \<open>Float32Array\<close> applies: the nearest
  number with a 24-bit significand and an exponent from -126 to 127, ties to the even
  significand; below \<open>2^-126\<close> the spacing stays \<open>2^-149\<close>, and what rounds to \<open>2^128\<close> is an
  infinity. The exponent of \<open>a\<close> is the largest \<open>e\<close> from -125 to 127 with \<open>2^e \<le> a\<close>, and
  -126 when there is none.
\<close>

definition pow2 :: "int \<Rightarrow> real" where
  "pow2 e = (if 0 \<le> e then 2 ^ nat e else 1 / 2 ^ nat (- e))"

fun float32_exponent_below :: "real \<Rightarrow> nat \<Rightarrow> int" where
  "float32_exponent_below a 0 = -126"
| "float32_exponent_below a (Suc k) =
     (if pow2 (int k - 125) \<le> a then int k - 125 else float32_exponent_below a k)"

definition float32_exponent :: "real \<Rightarrow> int" where
  "float32_exponent a = float32_exponent_below a 253"

definition round_half_even :: "real \<Rightarrow> int" where
  "round_half_even q =
     (let f = \<lfloor>q\<rfloor>;
          d = q - of_int f
      in if d < 1 / 2 then f else if d > 1 / 2 then f + 1 else if even f then f else f + 1)"

definition fround_real :: "real \<Rightarrow> number" where
  "fround_real x =
     (let a = \<bar>x\<bar>;
          ulp = pow2 (float32_exponent a - 23);
          r = of_int (round_half_even (a / ulp)) * ulp
      in if r \<ge> pow2 128 then (if x < 0 then NegInf else PosInf)
         else Finite (if x < 0 then - r else r))"

fun fround :: "number \<Rightarrow> number" where
  "fround (Finite x) = fround_real x"
| "fround NaN = NaN"
| "fround PosInf = PosInf"
| "fround NegInf = NegInf"

subsection \<open>The xorshift32 generator\<close>

text \<open>\<open>rngState = seed | 0 || 1\<close>\<close>

definition seedRng :: "int \<Rightarrow> 32 word" where
  "seedRng seed = (if to_int32 seed = 0 then 1 else word_of_int (to_int32 seed))"

text \<open>The three updates of \<open>rngState\<close> in \<open>random()\<close>.\<close>

definition xorshift32 :: "32 word \<Rightarrow> 32 word" where
  "xorshift32 s0 =
     (let s1 = s0 XOR push_bit 13 s0;
          s2 = s1 XOR drop_bit 17 s1;
          s3 = s2 XOR push_bit 5 s2
      in s3)"

text \<open>\<open>random()\<close>: the value drawn and the new state.\<close>

definition random_js :: "32 word \<Rightarrow> real \<times> 32 word" where
  "random_js rngState =
     (let rngState' = xorshift32 rngState
      in (real (unat rngState') / 4294967296, rngState'))"

definition randomCentered :: "32 word \<Rightarrow> real \<times> 32 word" where
  "randomCentered rngState = (let (r, rngState') = random_js rngState in (r - 0.5, rngState'))"

subsection \<open>Curve functions\<close>

text \<open>\<open>a % 1\<close> on a number: the remainder has the sign of the dividend.\<close>

definition js_mod1 :: "real \<Rightarrow> real" where
  "js_mod1 a = (if a < 0 then - (\<bar>a\<bar> - real_of_int \<lfloor>\<bar>a\<bar>\<rfloor>) else a - real_of_int \<lfloor>a\<rfloor>)"

text \<open>
  \<open>curveFunctions\<close> is an object literal, so a lookup under a name that is not one of its
  keys finds what the runtime's \<open>Object.prototype\<close> has under that name. The runtime is a
  parameter of the model. It says, for a name, what is inherited: a value that cannot be
  called (such as the object under \<open>__proto__\<close>), or a function, given by what the call
  \<open>curveFn(tLine, noise)\<close> does: it throws an error with a message, or it returns a value,
  given as the number that the arithmetic of the loop makes of it (a conversion that throws
  counts as a throw of the call). Under a name for which \<open>Object.prototype\<close> has nothing,
  or a value that \<open>||\<close> takes for false, the runtime says \<open>None\<close>. It also says with
  which message the call of a value that is not a function fails.
\<close>

datatype call_result = Returns number | Throws string

datatype inherited = NotCallable | Callable "real \<Rightarrow> real \<Rightarrow> call_result"

record runtime =
  object_prototype :: "string \<Rightarrow> inherited option"
  not_callable_message :: string

text \<open>
  What \<open>curveFn\<close> can be: one of the table's functions of \<open>t\<close> and \<open>noise\<close>, the table's
  random walk, or an inherited value.
\<close>

datatype curve = Plain "real \<Rightarrow> real \<Rightarrow> real" | RandomWalk | Inherited inherited

text \<open>
  The random walk: \<open>state\<close> is a \<open>Float32Array\<close>, so the sum is rounded when it is stored,
  and the stored number is returned.
\<close>

definition randomWalk :: "real \<Rightarrow> real \<Rightarrow> number list \<Rightarrow> nat \<Rightarrow> number \<times> number list" where
  "randomWalk t noise state li =
     (let state' = state[li := fround (num_plus (state ! li) (noise * 2))] in (state' ! li, state'))"

definition curve_sin :: "real \<Rightarrow> real \<Rightarrow> real" where
  "curve_sin t noise = sin (t * pi * 4) * (0.85 + noise * 0.3)"

definition curve_linear :: "real \<Rightarrow> real \<Rightarrow> real" where
  "curve_linear t noise = t * 100 + noise * 5"

text \<open>The sixteen keys of the table \<open>curveFunctions\<close>.\<close>

definition curveFunctions :: "string \<Rightarrow> curve option" where
  "curveFunctions k =
     (if k = ''loss'' then Some (Plain (\<lambda>t noise. exp (- t * 3) * (0.85 + noise * 0.3)))
      else if k = ''sin'' then Some (Plain curve_sin)
      else if k = ''accuracy'' then
        Some (Plain (\<lambda>t noise. min 1 (0.5 + t * 0.4 + sin (t * pi * 2) * 0.1 + noise * 0.08)))
      else if k = ''linear'' then Some (Plain curve_linear)
      else if k = ''exponential'' then Some (Plain (\<lambda>t noise. exp (t * 4) * 10 + noise * 20))
      else if k = ''logarithmic'' then Some (Plain (\<lambda>t noise. ln (1 + t * 10) * 2 + noise * 0.5))
      else if k = ''cosine'' then Some (Plain (\<lambda>t noise. cos (t * pi * 4) * (0.85 + noise * 0.3)))
      else if k = ''polynomial'' then Some (Plain (\<lambda>t noise. (t * 2 - 1) ^ 3 * 50 + noise * 5))
      else if k = ''randomWalk'' then Some RandomWalk
      else if k = ''step'' then Some (Plain (\<lambda>t noise. real_of_int \<lfloor>t * 5\<rfloor> * 2 + noise * 0.3))
      else if k = ''sigmoid'' then
        Some (Plain (\<lambda>t noise. 1 / (1 + exp (- (t - 0.5) * 10)) + noise * 0.05))
      else if k = ''tanh'' then Some (Plain (\<lambda>t noise. tanh ((t - 0.5) * 6) + noise * 0.1))
      else if k = ''dampedSine'' then
        Some (Plain (\<lambda>t noise. exp (- t * 2) * sin (t * pi * 8) * (0.9 + \<bar>noise\<bar> * 0.2)))
      else if k = ''sawtooth'' then Some (Plain (\<lambda>t noise. js_mod1 (t * 4) * 2 - 1 + noise * 0.1))
      else if k = ''gaussian'' then
        Some (Plain (\<lambda>t noise. let d = t - 0.5 in exp (- (d * d) / 0.045) + noise * 0.05))
      else if k = ''logistic'' then
        Some (Plain (\<lambda>t noise. (1 / (1 + exp (- 10 * (t - 0.5)))) * (0.95 + \<bar>noise\<bar> * 0.1)))
      else None)"

text \<open>
  \<open>curveFunctions[curveType] || defaultCurve\<close>: the table's own function, else the inherited
  value, else the default, which is the sine curve.
\<close>

definition select_curve :: "runtime \<Rightarrow> string \<Rightarrow> curve" where
  "select_curve rt curveType =
     (case curveFunctions curveType of
        Some c \<Rightarrow> c
      | None \<Rightarrow> (case object_prototype rt curveType of
                   Some v \<Rightarrow> Inherited v
                 | None \<Rightarrow> Plain curve_sin))"

text \<open>
  The call of \<open>curveFn\<close> in the loop, with the random walk's accumulators: what the call
  does, and the accumulators after it.
\<close>

definition call_curve :: "runtime \<Rightarrow> curve \<Rightarrow> real \<Rightarrow> real \<Rightarrow> number list \<Rightarrow> nat
    \<Rightarrow> call_result \<times> number list" where
  "call_curve rt curveFn tLine noise walkState li =
     (case curveFn of
        Plain f \<Rightarrow> (Returns (Finite (f tLine noise)), walkState)
      | RandomWalk \<Rightarrow> (let (raw, walkState') = randomWalk tLine noise walkState li
                       in (Returns raw, walkState'))
      | Inherited NotCallable \<Rightarrow> (Throws (not_callable_message rt), walkState)
      | Inherited (Callable f) \<Rightarrow> (f tLine noise, walkState))"

subsection \<open>Per-line parameters\<close>

record LineParams =
  ampMul :: real
  freqMul :: real
  phaseAdd :: real
  offset :: real

definition line_param :: "real \<Rightarrow> real \<Rightarrow> nat \<Rightarrow> LineParams" where
  "line_param denom sep li =
     (let frac = real li / denom;
          phase = frac * pi * 2
      in \<lparr>ampMul = 0.85 + frac * 0.3,
          freqMul = 0.9 + sin (phase * 0.7) * 0.12,
          phaseAdd = phase * 0.15,
          offset = (frac - 0.5) * sep * 10\<rparr>)"

definition computeLineParams :: "nat \<Rightarrow> string \<Rightarrow> LineParams list" where
  "computeLineParams lines curveType =
     (let denom = max 1 (real lines - 1);
          sep = (if curveType = ''accuracy'' \<or> curveType = ''loss'' then 0.08
                 else if curveType = ''randomWalk'' then 2.5 else 1.0)
      in map (line_param denom sep) [0..<lines])"

subsection \<open>The main generation loop\<close>

datatype DataFormat = Float32 | Float64 | Json

datatype ArrayType = Float32Array | Float64Array

text \<open>The number that an element of a typed array holds after \<open>v\<close> is stored in it.\<close>

definition store :: "ArrayType \<Rightarrow> number \<Rightarrow> number" where
  "store arrayType v = (case arrayType of Float32Array \<Rightarrow> fround v | Float64Array \<Rightarrow> v)"

text \<open>
  The variables the loops update: the generator's state, the random walk's accumulators, and
  the running bounds.
\<close>

record gen_vars =
  g_rng :: "32 word"
  g_walk :: "number list"
  g_yMin :: number
  g_yMax :: number

text \<open>
  The body of the inner loop, for line \<open>li\<close> with parameters \<open>p\<close> at position \<open>t\<close>: \<open>Inl\<close>
  is the message of the error that the call of \<open>curveFn\<close> throws, \<open>Inr\<close> the number that
  \<open>ys[li][i]\<close> holds after the store. The bounds are updated with \<open>v\<close> itself.
\<close>

definition line_step :: "runtime \<Rightarrow> curve \<Rightarrow> ArrayType \<Rightarrow> real \<Rightarrow> nat \<Rightarrow> LineParams \<Rightarrow> gen_vars
    \<Rightarrow> (string + number) \<times> gen_vars" where
  "line_step rt curveFn arrayType t li p g =
     (let tLine = t * freqMul p + phaseAdd p;
          (noise, rng') = randomCentered (g_rng g);
          (result, walk') = call_curve rt curveFn tLine noise (g_walk g) li
      in case result of
           Throws message \<Rightarrow> (Inl message, g\<lparr>g_rng := rng', g_walk := walk'\<rparr>)
         | Returns raw \<Rightarrow>
             let v = num_plus (num_times raw (ampMul p)) (offset p)
             in (Inr (store arrayType v),
                 \<lparr>g_rng = rng', g_walk = walk',
                  g_yMin = (if num_less v (g_yMin g) then v else g_yMin g),
                  g_yMax = (if num_less (g_yMax g) v then v else g_yMax g)\<rparr>))"

text \<open>
  The inner loop over the lines \<open>li, li + 1, ...\<close>: the values stored at point \<open>i\<close>, unless
  a call throws, which ends the loop.
\<close>

fun line_loop :: "runtime \<Rightarrow> curve \<Rightarrow> ArrayType \<Rightarrow> real \<Rightarrow> nat \<Rightarrow> LineParams list \<Rightarrow> gen_vars
    \<Rightarrow> (string + number list) \<times> gen_vars" where
  "line_loop rt curveFn arrayType t li [] g = (Inr [], g)"
| "line_loop rt curveFn arrayType t li (p # ps) g =
     (case line_step rt curveFn arrayType t li p g of
        (Inl message, g') \<Rightarrow> (Inl message, g')
      | (Inr v, g') \<Rightarrow>
          (case line_loop rt curveFn arrayType t (Suc li) ps g' of
             (Inl message, g'') \<Rightarrow> (Inl message, g'')
           | (Inr vs, g'') \<Rightarrow> (Inr (v # vs), g'')))"

text \<open>
  The outer loop over the points: for each \<open>i\<close> the pair of \<open>x[i]\<close> and the column
  \<open>ys[0][i], ys[1][i], ...\<close>, unless a call throws.
\<close>

fun point_loop :: "runtime \<Rightarrow> curve \<Rightarrow> ArrayType \<Rightarrow> LineParams list \<Rightarrow> real \<Rightarrow> nat list \<Rightarrow> gen_vars
    \<Rightarrow> (string + (number \<times> number list) list) \<times> gen_vars" where
  "point_loop rt curveFn arrayType lineParams xMaxIdx [] g = (Inr [], g)"
| "point_loop rt curveFn arrayType lineParams xMaxIdx (i # is) g =
     (let t = real i / xMaxIdx
      in case line_loop rt curveFn arrayType t 0 lineParams g of
           (Inl message, g') \<Rightarrow> (Inl message, g')
         | (Inr col, g') \<Rightarrow>
             (case point_loop rt curveFn arrayType lineParams xMaxIdx is g' of
                (Inl message, g'') \<Rightarrow> (Inl message, g'')
              | (Inr rest, g'') \<Rightarrow> (Inr ((store arrayType (Finite (real i)), col) # rest), g'')))"

record GeneratedData =
  gd_type :: ArrayType
  gd_x :: "number list"
  gd_ys :: "number list list"
  gd_yMin :: number
  gd_yMax :: number

text \<open>
  \<open>generateData\<close>, from the generator's state: the data, or the message of the error thrown
  out of the loop, and the state in which the generator is left. The worker calls it with at
  least ten points, so \<open>xMaxIdx\<close> is not zero.
\<close>

definition generateData :: "runtime \<Rightarrow> nat \<Rightarrow> nat \<Rightarrow> string \<Rightarrow> DataFormat \<Rightarrow> 32 word
    \<Rightarrow> (string + GeneratedData) \<times> 32 word" where
  "generateData rt points lines curveType dataFormat rngState =
     (let arrayType = (if dataFormat = Float64 then Float64Array else Float32Array);
          lineParams = computeLineParams lines curveType;
          curveFn = select_curve rt curveType;
          walkState = (if curveType = ''randomWalk'' then replicate lines (Finite 0) else []);
          xMaxIdx = real points - 1
      in case point_loop rt curveFn arrayType lineParams xMaxIdx [0..<points]
                \<lparr>g_rng = rngState, g_walk = walkState, g_yMin = PosInf, g_yMax = NegInf\<rparr> of
           (Inl message, g) \<Rightarrow> (Inl message, g_rng g)
         | (Inr rows, g) \<Rightarrow>
             (Inr \<lparr>gd_type = arrayType,
                   gd_x = map fst rows,
                   gd_ys = map (\<lambda>li. map (\<lambda>row. snd row ! li) rows) [0..<lines],
                   gd_yMin = g_yMin g,
                   gd_yMax = g_yMax g\<rparr>, g_rng g))"

subsection \<open>Messages\<close>

text \<open>
  A request message with all the fields of the type \<open>WorkerRequest\<close>, the id a natural
  number and the counts integers. The handler's destructuring gives an absent \<open>numLines\<close>,
  \<open>curveType\<close> or \<open>dataFormat\<close> the default 1, \<open>sin\<close> or \<open>float32\<close>: such a message is the
  one with the default in the field.
\<close>

record WorkerRequest =
  rq_requestId :: nat
  rq_numPoints :: int
  rq_numLines :: int
  rq_curveType :: string
  rq_dataFormat :: DataFormat

text \<open>
  The field \<open>ys\<close> of a success response: the lines' buffers, or for the JSON format the
  serialised sequence of point records \<open>{x, y0, y1, ...}\<close>, kept here as the records. In
  JSON a number that is not finite is written \<open>null\<close>, which is \<open>None\<close> here.
\<close>

definition to_json :: "number \<Rightarrow> real option" where
  "to_json v = (case v of Finite r \<Rightarrow> Some r | _ \<Rightarrow> None)"

datatype ys_data = YBuffers "number list list" | YJson "(real option \<times> real option list) list"

record WorkerSuccessResponse =
  sr_requestId :: nat
  sr_x :: "number list option"
  sr_ys :: ys_data
  sr_length :: int
  sr_numLines :: int
  sr_curveType :: string
  sr_dataFormat :: DataFormat
  sr_xMin :: real
  sr_xMax :: real
  sr_yMin :: number
  sr_yMax :: number

record WorkerErrorResponse =
  er_requestId :: nat
  er_error :: string

datatype WorkerResponse = SuccessResponse WorkerSuccessResponse | ErrorResponse WorkerErrorResponse

fun response_requestId :: "WorkerResponse \<Rightarrow> nat" where
  "response_requestId (SuccessResponse r) = sr_requestId r"
| "response_requestId (ErrorResponse r) = er_requestId r"

fun response_success :: "WorkerResponse \<Rightarrow> bool" where
  "response_success (SuccessResponse r) = True"
| "response_success (ErrorResponse r) = False"

subsection \<open>The size-limit message\<close>

fun show_nat :: "nat \<Rightarrow> string" where
  "show_nat n = (if n < 10 then [char_of (48 + n)] else show_nat (n div 10) @ [char_of (48 + n mod 10)])"

text \<open>
  \<open>(estBytes / (1024 * 1024)).toFixed(1)\<close>: the quotient is exact, and \<open>toFixed\<close> takes the
  nearest tenth, the larger one at a tie.
\<close>

definition toFixed1_MB :: "nat \<Rightarrow> string" where
  "toFixed1_MB bytes =
     (let n = (10 * bytes + 2 ^ 19) div 2 ^ 20 in show_nat (n div 10) @ ''.'' @ show_nat (n mod 10))"

definition toFixed0_MB :: "nat \<Rightarrow> string" where
  "toFixed0_MB bytes = show_nat ((bytes + 2 ^ 19) div 2 ^ 20)"

text \<open>The multiplication sign of the message is two bytes in UTF-8.\<close>

definition too_large_message :: "int \<Rightarrow> int \<Rightarrow> int \<Rightarrow> string" where
  "too_large_message estBytes lines points =
     ''Data too large: '' @ toFixed1_MB (nat estBytes) @ ''MB for '' @ show_nat (nat lines)
       @ '' lines '' @ [CHR 0xC3, CHR 0x97] @ '' '' @ show_nat (nat points)
       @ '' points (max '' @ toFixed0_MB (nat MAX_BYTES) @ ''MB)''"

subsection \<open>The message handler\<close>

text \<open>
  The seed \<open>(requestId * 2654435761 + Date.now()) | 0\<close>: the product and the sum are
  doubles, \<open>| 0\<close> keeps the low 32 bits of the sum.
\<close>

definition request_seed :: "nat \<Rightarrow> nat \<Rightarrow> int" where
  "request_seed requestId now = to_int32 (int (fl53 (fl53 (requestId * 2654435761) + now)))"

definition clamp_points :: "int \<Rightarrow> int" where
  "clamp_points numPoints = max 10 (min MAX_POINTS (to_int32 numPoints))"

definition clamp_lines :: "int \<Rightarrow> int" where
  "clamp_lines numLines = max 1 (min MAX_LINES (to_int32 numLines))"

definition bytesPerElement :: "DataFormat \<Rightarrow> int" where
  "bytesPerElement dataFormat = (if dataFormat = Float64 then 8 else 4)"

definition estBytes :: "WorkerRequest \<Rightarrow> int" where
  "estBytes req =
     (1 + clamp_lines (rq_numLines req)) * clamp_points (rq_numPoints req)
       * bytesPerElement (rq_dataFormat req)"

text \<open>The success response built from the generated data, for either kind of format.\<close>

definition success_response :: "WorkerRequest \<Rightarrow> int \<Rightarrow> int \<Rightarrow> GeneratedData \<Rightarrow> WorkerSuccessResponse" where
  "success_response req points lines gd =
     (if rq_dataFormat req = Json then
        \<lparr>sr_requestId = rq_requestId req,
         sr_x = None,
         sr_ys = YJson (map (\<lambda>i. (to_json (gd_x gd ! i),
                                   map (\<lambda>li. to_json (gd_ys gd ! li ! i)) [0..<nat lines]))
                    [0..<nat points]),
         sr_length = points,
         sr_numLines = lines,
         sr_curveType = rq_curveType req,
         sr_dataFormat = rq_dataFormat req,
         sr_xMin = 0,
         sr_xMax = real_of_int points - 1,
         sr_yMin = gd_yMin gd,
         sr_yMax = gd_yMax gd\<rparr>
      else
        \<lparr>sr_requestId = rq_requestId req,
         sr_x = Some (gd_x gd),
         sr_ys = YBuffers (gd_ys gd),
         sr_length = points,
         sr_numLines = lines,
         sr_curveType = rq_curveType req,
         sr_dataFormat = rq_dataFormat req,
         sr_xMin = 0,
         sr_xMax = real_of_int points - 1,
         sr_yMin = gd_yMin gd,
         sr_yMax = gd_yMax gd\<rparr>)"

text \<open>
  The body of the \<open>try\<close> block: \<open>Inl\<close> is the message of the error thrown, by the size guard
  or out of \<open>generateData\<close>, \<open>Inr\<close> the response posted; with it the state in which the
  generator is left. The typed arrays are allocated in \<open>generateData\<close> only. Errors that a
  runtime raises when it is out of memory (for the arrays, or for a JSON string beyond the
  length it allows) are not modelled.
\<close>

definition try_body :: "runtime \<Rightarrow> WorkerRequest \<Rightarrow> nat \<Rightarrow> 32 word
    \<Rightarrow> (string + WorkerSuccessResponse) \<times> 32 word" where
  "try_body rt req now rngState =
     (let points = clamp_points (rq_numPoints req);
          lines = clamp_lines (rq_numLines req)
      in if estBytes req > MAX_BYTES then
           (Inl (too_large_message (estBytes req) lines points), rngState)
         else
           let seed = request_seed (rq_requestId req) now;
               rng0 = seedRng (if seed = 0 then 1 else seed)
           in case generateData rt (nat points) (nat lines) (rq_curveType req)
                     (rq_dataFormat req) rng0 of
                (Inl message, rng1) \<Rightarrow> (Inl message, rng1)
              | (Inr gd, rng1) \<Rightarrow> (Inr (success_response req points lines gd), rng1))"

text \<open>\<open>self.onmessage\<close>: the list of the responses posted, and the generator's state.\<close>

definition onmessage :: "runtime \<Rightarrow> WorkerRequest \<Rightarrow> nat \<Rightarrow> 32 word \<Rightarrow> WorkerResponse list \<times> 32 word" where
  "onmessage rt req now rngState =
     (case try_body rt req now rngState of
        (Inr response, rngState') \<Rightarrow> ([SuccessResponse response], rngState')
      | (Inl message, rngState') \<Rightarrow>
          ([ErrorResponse \<lparr>er_requestId = rq_requestId req, er_error = message\<rparr>], rngState'))"

section \<open>The worker pool (workers/workerPool.ts)\<close>

text \<open>
  Workers, timers and promises are objects of the environment; the model names each by a
  number and keeps the environment's side in the pool's record: the next fresh worker and
  timer, the timers that are set, and logs of the calls of \<open>resolve\<close> and \<open>reject\<close>, of
  \<open>worker.terminate()\<close> and of \<open>worker.postMessage\<close>. The promise made by the call of
  \<open>generatePoints\<close> that takes request id \<open>r\<close> is promise \<open>r\<close>. \<open>Date.now()\<close> is a
  parameter \<open>now\<close> of every handler.
\<close>

subsection \<open>Data\<close>

record QueuedRequest =
  q_numPoints :: int
  q_numLines :: int
  q_curveType :: string
  q_dataFormat :: DataFormat
  q_requestId :: nat
  q_promise :: nat

record PendingRequest =
  p_promise :: nat
  p_timeoutId :: nat

record DataBounds =
  b_xMin :: real
  b_xMax :: real
  b_yMin :: number
  b_yMax :: number

text \<open>An entry of the data is a number, or \<open>null\<close> (\<open>None\<close>), which a JSON record can hold.\<close>

record GenerateResult =
  r_data :: "number option list list"
  r_bounds :: DataBounds

datatype settlement = Resolved GenerateResult | Rejected string

text \<open>What the callback of \<open>setTimeout\<close> in \<open>_dispatchToWorker\<close> has captured, and when it is due.\<close>

record TimeoutClosure =
  t_worker :: nat
  t_requestId :: nat
  t_promise :: nat
  t_due :: int

record WorkerPool =
  maxPoolSize :: nat
  workers :: "nat list"
  queue :: "QueuedRequest list"
  activeWorkers :: "nat set"
  requestIdCounter :: nat
  pendingRequests :: "(nat \<times> PendingRequest) list"
  workerToRequestId :: "nat \<rightharpoonup> nat"
  workerLastUsed :: "nat \<rightharpoonup> int"
  minWorkers :: nat
  cleanupInterval :: bool
  nextWorker :: nat
  timers :: "nat \<rightharpoonup> TimeoutClosure"
  nextTimer :: nat
  settled :: "(nat \<times> settlement) list"
  terminatedWorkers :: "nat list"
  posted :: "(nat \<times> WorkerRequest) list"

record PoolStats =
  st_maxPoolSize :: int
  st_currentWorkers :: int
  st_activeWorkers :: int
  st_idleWorkers :: int
  st_queueLength :: int
  st_pendingRequests :: int

definition requestTimeoutMs :: int where "requestTimeoutMs = 20000"
definition idleTimeout :: int where "idleTimeout = 30000"

subsection \<open>The environment's operations\<close>

text \<open>A call of \<open>resolve\<close> or \<open>reject\<close> of a promise.\<close>

definition settle :: "nat \<Rightarrow> settlement \<Rightarrow> WorkerPool \<Rightarrow> WorkerPool" where
  "settle promise outcome p = p\<lparr>settled := settled p @ [(promise, outcome)]\<rparr>"

text \<open>\<open>if (timeoutId) clearTimeout(timeoutId)\<close>; the handles of timers are not zero.\<close>

definition clearTimeout :: "nat \<Rightarrow> (nat \<rightharpoonup> TimeoutClosure) \<Rightarrow> (nat \<rightharpoonup> TimeoutClosure)" where
  "clearTimeout timeoutId ts = (if timeoutId \<noteq> 0 then ts(timeoutId := None) else ts)"

subsection \<open>Units\<close>

definition removeWorker :: "nat \<Rightarrow> WorkerPool \<Rightarrow> WorkerPool" where
  "removeWorker worker p =
     p\<lparr>workers := filter (\<lambda>w. w \<noteq> worker) (workers p),
       workerLastUsed := (workerLastUsed p)(worker := None),
       workerToRequestId := (workerToRequestId p)(worker := None),
       terminatedWorkers := terminatedWorkers p @ [worker]\<rparr>"

definition createWorker :: "int \<Rightarrow> WorkerPool \<Rightarrow> nat option \<times> WorkerPool" where
  "createWorker now p =
     (if length (workers p) \<ge> maxPoolSize p then (None, p)
      else let worker = nextWorker p
           in (Some worker,
               p\<lparr>nextWorker := Suc worker,
                 workers := workers p @ [worker],
                 workerLastUsed := (workerLastUsed p)(worker \<mapsto> now)\<rparr>))"

text \<open>The loop of \<open>setMaxPoolSize\<close>.\<close>

function shrink_idle :: "WorkerPool \<Rightarrow> WorkerPool" where
  "shrink_idle p =
     (if length (workers p) > maxPoolSize p then
        (case find (\<lambda>w. w \<notin> activeWorkers p) (workers p) of
           None \<Rightarrow> p
         | Some idle \<Rightarrow> shrink_idle (removeWorker idle p))
      else p)"
  by pat_completeness auto
termination
proof (relation "measure (\<lambda>p. length (workers p))")
  show "wf (measure (\<lambda>p. length (workers p)))" by simp
next
  fix p :: WorkerPool and idle
  assume "find (\<lambda>w. w \<notin> activeWorkers p) (workers p) = Some idle"
  then have "idle \<in> set (workers p)" by (auto simp: find_Some_iff)
  then have "length (filter (\<lambda>w. w \<noteq> idle) (workers p)) < length (workers p)"
    by (rule length_filter_less) simp
  then show "(removeWorker idle p, p) \<in> measure (\<lambda>p. length (workers p))"
    by (simp add: removeWorker_def)
qed

definition setMaxPoolSize :: "int \<Rightarrow> WorkerPool \<Rightarrow> WorkerPool" where
  "setMaxPoolSize nextMaxPoolSize p =
     (let next = nat (max 1 (if nextMaxPoolSize = 0 then 1 else nextMaxPoolSize));
          p1 = shrink_idle (p\<lparr>maxPoolSize := next\<rparr>)
      in p1\<lparr>minWorkers := min (minWorkers p1) (maxPoolSize p1)\<rparr>)"

text \<open>The two loops of \<open>cleanupIdleWorkers\<close>: the first collects, the second removes.\<close>

fun collect_idle :: "int \<Rightarrow> WorkerPool \<Rightarrow> nat list \<Rightarrow> nat list" where
  "collect_idle now p [] = []"
| "collect_idle now p (worker # ws) =
     (if worker \<in> activeWorkers p then collect_idle now p ws
      else if length (workers p) \<le> minWorkers p then []
      else let lastUsed = (case workerLastUsed p worker of None \<Rightarrow> 0 | Some t \<Rightarrow> t)
           in if now - lastUsed > idleTimeout then worker # collect_idle now p ws
              else collect_idle now p ws)"

fun remove_collected :: "nat list \<Rightarrow> WorkerPool \<Rightarrow> WorkerPool" where
  "remove_collected [] p = p"
| "remove_collected (worker # ws) p =
     (if length (workers p) \<le> minWorkers p then p
      else remove_collected ws (removeWorker worker p))"

definition cleanupIdleWorkers :: "int \<Rightarrow> WorkerPool \<Rightarrow> WorkerPool" where
  "cleanupIdleWorkers now p = remove_collected (collect_idle now p (workers p)) p"

subsection \<open>Dispatch\<close>

definition getAvailableWorker :: "int \<Rightarrow> WorkerPool \<Rightarrow> nat option \<times> WorkerPool" where
  "getAvailableWorker now p =
     (case find (\<lambda>w. w \<notin> activeWorkers p) (workers p) of
        Some worker \<Rightarrow> (Some worker, p)
      | None \<Rightarrow> if length (workers p) < maxPoolSize p then createWorker now p else (None, p))"

definition dispatchToWorker :: "int \<Rightarrow> nat \<Rightarrow> QueuedRequest \<Rightarrow> WorkerPool \<Rightarrow> WorkerPool" where
  "dispatchToWorker now worker request p =
     (let timeoutId = nextTimer p
      in p\<lparr>activeWorkers := insert worker (activeWorkers p),
           workerToRequestId := (workerToRequestId p)(worker \<mapsto> q_requestId request),
           nextTimer := Suc timeoutId,
           timers := (timers p)(timeoutId \<mapsto>
             \<lparr>t_worker = worker, t_requestId = q_requestId request,
              t_promise = q_promise request, t_due = now + requestTimeoutMs\<rparr>),
           pendingRequests := AList.update (q_requestId request)
             \<lparr>p_promise = q_promise request, p_timeoutId = timeoutId\<rparr> (pendingRequests p),
           posted := posted p @
             [(worker, \<lparr>rq_requestId = q_requestId request, rq_numPoints = q_numPoints request,
                        rq_numLines = q_numLines request, rq_curveType = q_curveType request,
                        rq_dataFormat = q_dataFormat request\<rparr>)]\<rparr>)"

definition processQueue :: "int \<Rightarrow> WorkerPool \<Rightarrow> WorkerPool" where
  "processQueue now p =
     (case queue p of
        [] \<Rightarrow> p
      | request # rest \<Rightarrow>
          (case getAvailableWorker now p of
             (Some worker, p') \<Rightarrow> dispatchToWorker now worker request (p'\<lparr>queue := rest\<rparr>)
           | (None, p') \<Rightarrow> p'))"

definition generatePoints :: "int \<Rightarrow> int \<Rightarrow> string \<Rightarrow> DataFormat \<Rightarrow> int \<Rightarrow> WorkerPool \<Rightarrow> WorkerPool" where
  "generatePoints numPoints numLines curveType dataFormat now p =
     (let points = max 10 (min 10000000 numPoints);
          lines = max 1 (min 1000 numLines);
          requestId = Suc (requestIdCounter p);
          request = \<lparr>q_numPoints = points, q_numLines = lines, q_curveType = curveType,
                     q_dataFormat = dataFormat, q_requestId = requestId, q_promise = requestId\<rparr>
      in case getAvailableWorker now (p\<lparr>requestIdCounter := requestId\<rparr>) of
           (Some worker, p') \<Rightarrow> dispatchToWorker now worker request p'
         | (None, p') \<Rightarrow> p'\<lparr>queue := queue p' @ [request]\<rparr>)"

subsection \<open>The handlers of a worker's events\<close>

text \<open>
  The conversion of a success response in \<open>worker.onmessage\<close>. \<open>JSON.parse\<close> throws on a
  value that is not the serialised records: the result is \<open>None\<close> then.
\<close>

definition result_data :: "WorkerSuccessResponse \<Rightarrow> number option list list option" where
  "result_data r =
     (if sr_dataFormat r = Json then
        (case sr_ys r of
           YJson jsonData \<Rightarrow>
             let xArray = map (\<lambda>pt. map_option Finite (fst pt)) jsonData;
                 yKeys = (case jsonData of [] \<Rightarrow> [] | pt # _ \<Rightarrow> [0..<length (snd pt)]);
                 yArrays = map (\<lambda>k. map (\<lambda>pt. map_option Finite (snd pt ! k)) jsonData) yKeys
             in Some (xArray # yArrays)
         | YBuffers _ \<Rightarrow> None)
      else
        let xArray = (case sr_x r of Some x \<Rightarrow> map Some x | None \<Rightarrow> []);
            yArrays = (case sr_ys r of YBuffers ys \<Rightarrow> map (map Some) ys | YJson _ \<Rightarrow> [])
        in Some (xArray # yArrays))"

definition response_bounds :: "WorkerSuccessResponse \<Rightarrow> DataBounds" where
  "response_bounds r = \<lparr>b_xMin = sr_xMin r, b_xMax = sr_xMax r, b_yMin = sr_yMin r, b_yMax = sr_yMax r\<rparr>"

text \<open>
  \<open>worker.onmessage\<close>. When the conversion throws, the handler ends there: the entry is
  gone, nothing is settled, the queue is not looked at.
\<close>

definition worker_onmessage :: "nat \<Rightarrow> WorkerResponse \<Rightarrow> int \<Rightarrow> WorkerPool \<Rightarrow> WorkerPool" where
  "worker_onmessage worker data now p =
     (let p1 = p\<lparr>workerLastUsed := (workerLastUsed p)(worker \<mapsto> now)\<rparr>
      in case map_of (pendingRequests p1) (response_requestId data) of
           None \<Rightarrow> processQueue now p1
         | Some entry \<Rightarrow>
             let p2 = p1\<lparr>pendingRequests := AList.delete (response_requestId data) (pendingRequests p1),
                         activeWorkers := activeWorkers p1 - {worker},
                         workerToRequestId := (workerToRequestId p1)(worker := None),
                         timers := clearTimeout (p_timeoutId entry) (timers p1)\<rparr>
             in (case data of
                   SuccessResponse r \<Rightarrow>
                     (case result_data r of
                        None \<Rightarrow> p2
                      | Some resultData \<Rightarrow>
                          processQueue now
                            (settle (p_promise entry)
                               (Resolved \<lparr>r_data = resultData, r_bounds = response_bounds r\<rparr>) p2))
                 | ErrorResponse e \<Rightarrow>
                     processQueue now
                       (settle (p_promise entry)
                          (Rejected (if er_error e = [] then ''Worker error'' else er_error e)) p2)))"

text \<open>\<open>worker.onerror\<close>; \<open>worker.onmessageerror\<close> calls it.\<close>

definition worker_onerror :: "nat \<Rightarrow> int \<Rightarrow> WorkerPool \<Rightarrow> WorkerPool" where
  "worker_onerror worker now p =
     (let p1 = (case workerToRequestId p worker of
                  None \<Rightarrow> p
                | Some requestId \<Rightarrow>
                    (case map_of (pendingRequests p) requestId of
                       None \<Rightarrow> p
                     | Some entry \<Rightarrow>
                         settle (p_promise entry) (Rejected ''Worker crashed while processing request'')
                           (p\<lparr>pendingRequests := AList.delete requestId (pendingRequests p),
                              timers := clearTimeout (p_timeoutId entry) (timers p)\<rparr>)));
          p2 = p1\<lparr>activeWorkers := activeWorkers p1 - {worker},
                   workerToRequestId := (workerToRequestId p1)(worker := None),
                   workerLastUsed := (workerLastUsed p1)(worker := None),
                   workers := filter (\<lambda>w. w \<noteq> worker) (workers p1),
                   terminatedWorkers := terminatedWorkers p1 @ [worker]\<rparr>;
          p3 = (if length (workers p2) < minWorkers p2 then snd (createWorker now p2) else p2)
      in processQueue now p3)"

definition worker_onmessageerror :: "nat \<Rightarrow> int \<Rightarrow> WorkerPool \<Rightarrow> WorkerPool" where
  "worker_onmessageerror worker now p = worker_onerror worker now p"

text \<open>The callback of the timer set in \<open>_dispatchToWorker\<close>.\<close>

definition timeout_callback :: "TimeoutClosure \<Rightarrow> int \<Rightarrow> WorkerPool \<Rightarrow> WorkerPool" where
  "timeout_callback c now p =
     (if map_of (pendingRequests p) (t_requestId c) = None then p
      else
        let p1 = p\<lparr>pendingRequests := AList.delete (t_requestId c) (pendingRequests p),
                   activeWorkers := activeWorkers p - {t_worker c},
                   workerToRequestId := (workerToRequestId p)(t_worker c := None)\<rparr>;
            p2 = settle (t_promise c) (Rejected ''Worker request timed out'') p1;
            p3 = removeWorker (t_worker c) p2;
            p4 = (if length (workers p3) < minWorkers p3 then snd (createWorker now p3) else p3)
        in processQueue now p4)"

subsection \<open>Construction, shutdown, statistics\<close>

definition initialize :: "int \<Rightarrow> WorkerPool \<Rightarrow> WorkerPool" where
  "initialize now p = fold (\<lambda>i p'. snd (createWorker now p')) [0..<minWorkers p] p"

definition startIdleCleanup :: "WorkerPool \<Rightarrow> WorkerPool" where
  "startIdleCleanup p = p\<lparr>cleanupInterval := True\<rparr>"

definition constructor :: "int \<Rightarrow> int \<Rightarrow> WorkerPool" where
  "constructor maxPoolSize0 now =
     startIdleCleanup (initialize now
       \<lparr>maxPoolSize = nat (max 1 (if maxPoolSize0 = 0 then 1 else maxPoolSize0)),
        workers = [],
        queue = [],
        activeWorkers = {},
        requestIdCounter = 0,
        pendingRequests = [],
        workerToRequestId = Map.empty,
        workerLastUsed = Map.empty,
        minWorkers = 1,
        cleanupInterval = False,
        nextWorker = 0,
        timers = Map.empty,
        nextTimer = 1,
        settled = [],
        terminatedWorkers = [],
        posted = []\<rparr>)"

definition terminate :: "WorkerPool \<Rightarrow> WorkerPool" where
  "terminate p =
     p\<lparr>cleanupInterval := False,
       settled := settled p @ map (\<lambda>request. (q_promise request, Rejected ''Worker pool terminated'')) (queue p),
       queue := [],
       terminatedWorkers := terminatedWorkers p @ workers p,
       workers := [],
       activeWorkers := {},
       timers := fold (\<lambda>entry. clearTimeout (p_timeoutId entry)) (map snd (pendingRequests p)) (timers p),
       pendingRequests := [],
       workerToRequestId := Map.empty,
       workerLastUsed := Map.empty\<rparr>"

definition getStats :: "WorkerPool \<Rightarrow> PoolStats" where
  "getStats p =
     \<lparr>st_maxPoolSize = int (maxPoolSize p),
      st_currentWorkers = int (length (workers p)),
      st_activeWorkers = int (card (activeWorkers p)),
      st_idleWorkers = int (length (workers p)) - int (card (activeWorkers p)),
      st_queueLength = int (length (queue p)),
      st_pendingRequests = int (length (pendingRequests p))\<rparr>"

subsection \<open>Runs of the pool\<close>

text \<open>
  What can happen to a pool: a call of its public surface, an event of one of its workers,
  one of its timers firing, a tick of the cleanup interval. A timer fires when it is set and
  due; the interval ticks while it is set.
\<close>

datatype event =
    GeneratePoints int int string DataFormat
  | SetMaxPoolSize int
  | Message nat WorkerResponse
  | MessageError nat
  | Crash nat
  | Timeout nat
  | CleanupTick
  | Terminate

fun step :: "WorkerPool \<Rightarrow> int \<times> event \<Rightarrow> WorkerPool" where
  "step p (now, GeneratePoints numPoints numLines curveType dataFormat) =
     generatePoints numPoints numLines curveType dataFormat now p"
| "step p (now, SetMaxPoolSize n) = setMaxPoolSize n p"
| "step p (now, Message worker data) = worker_onmessage worker data now p"
| "step p (now, MessageError worker) = worker_onmessageerror worker now p"
| "step p (now, Crash worker) = worker_onerror worker now p"
| "step p (now, Timeout timeoutId) =
     (case timers p timeoutId of
        None \<Rightarrow> p
      | Some c \<Rightarrow> if t_due c \<le> now then timeout_callback c now (p\<lparr>timers := (timers p)(timeoutId := None)\<rparr>)
                  else p)"
| "step p (now, CleanupTick) = (if cleanupInterval p then cleanupIdleWorkers now p else p)"
| "step p (now, Terminate) = terminate p"

definition run :: "WorkerPool \<Rightarrow> (int \<times> event) list \<Rightarrow> WorkerPool" where
  "run p evs = foldl step p evs"

section \<open>Vocabulary of the properties\<close>


text \<open>The curve is one of the table's own, or the default: not an inherited value.\<close>

fun table_curve :: "curve \<Rightarrow> bool" where
  "table_curve (Plain f) = True"
| "table_curve RandomWalk = True"
| "table_curve (Inherited v) = False"

text \<open>
  A runtime for the examples: of what \<open>Object.prototype\<close> has, the accessor \<open>__proto__\<close>,
  whose value is an object and cannot be called.
\<close>

definition example_runtime :: runtime where
  "example_runtime =
     \<lparr>object_prototype = (\<lambda>k. if k = ''__proto__'' then Some NotCallable else None),
      not_callable_message = ''curveFn is not a function''\<rparr>"



text \<open>The idle units, in the pool's order; the time a unit has been idle at \<open>now\<close>.\<close>

definition idle_units :: "WorkerPool \<Rightarrow> nat list" where
  "idle_units p = filter (\<lambda>w. w \<notin> activeWorkers p) (workers p)"

definition idle_time :: "int \<Rightarrow> WorkerPool \<Rightarrow> nat \<Rightarrow> int" where
  "idle_time now p w = now - (case workerLastUsed p w of None \<Rightarrow> 0 | Some t \<Rightarrow> t)"

text \<open>
  The pool's units are well formed: the workers are distinct objects made by the pool, the
  active ones are among them, and the floor is not above the capacity.
\<close>

definition units_ok :: "WorkerPool \<Rightarrow> bool" where
  "units_ok p \<longleftrightarrow>
     distinct (workers p) \<and>
     (\<forall>w \<in> set (workers p). w < nextWorker p) \<and>
     activeWorkers p \<subseteq> set (workers p) \<and>
     minWorkers p \<le> maxPoolSize p"

text \<open>
  The pool's requests are well formed: a request is queued or pending or settled, never two of
  them; every entry carries the promise of its own request; ids come from the counter.
\<close>

definition requests_ok :: "WorkerPool \<Rightarrow> bool" where
  "requests_ok p \<longleftrightarrow>
     distinct (map q_requestId (queue p)) \<and>
     (\<forall>q \<in> set (queue p). q_promise q = q_requestId q \<and> q_requestId q \<le> requestIdCounter p
        \<and> map_of (pendingRequests p) (q_requestId q) = None
        \<and> q_requestId q \<notin> fst ` set (settled p)) \<and>
     (\<forall>k e. map_of (pendingRequests p) k = Some e \<longrightarrow>
        p_promise e = k \<and> k \<le> requestIdCounter p \<and> k \<notin> fst ` set (settled p)) \<and>
     (\<forall>t c. timers p t = Some c \<longrightarrow> t_promise c = t_requestId c) \<and>
     (\<forall>k \<in> fst ` set (settled p). k \<le> requestIdCounter p) \<and>
     distinct (map fst (settled p))"

text \<open>The events of a run other than the shutdown.\<close>

definition no_terminate :: "(int \<times> event) list \<Rightarrow> bool" where
  "no_terminate evs = list_all (\<lambda>ev. snd ev \<noteq> Terminate) evs"

text \<open>
  From \<open>p\<close> to \<open>p'\<close> no unit is lost, and none is made beyond the capacity; capacity and
  floor are the same.
\<close>

definition grows_within :: "WorkerPool \<Rightarrow> WorkerPool \<Rightarrow> bool" where
  "grows_within p p' \<longleftrightarrow>
     maxPoolSize p' = maxPoolSize p \<and> minWorkers p' = minWorkers p \<and>
     length (workers p) \<le> length (workers p') \<and>
     length (workers p') \<le> max (length (workers p)) (maxPoolSize p)"

text \<open>The largest capacity the pool has had in a run from \<open>p\<close>.\<close>

fun peak_capacity :: "WorkerPool \<Rightarrow> (int \<times> event) list \<Rightarrow> nat" where
  "peak_capacity p [] = maxPoolSize p"
| "peak_capacity p (ev # evs) = max (maxPoolSize p) (peak_capacity (step p ev) evs)"

text \<open>What a handler adds to the settled promises: nothing, or the promise of a pending request.\<close>

definition settles_pending :: "WorkerPool \<Rightarrow> WorkerPool \<Rightarrow> bool" where
  "settles_pending p p' \<longleftrightarrow>
     settled p' = settled p \<or>
     (\<exists>r out. settled p' = settled p @ [(r, out)] \<and> map_of (pendingRequests p) r \<noteq> None)"

section \<open>Properties of the generation worker\<close>

subsection \<open>Rounding to 32 bits\<close>

lemma pow2_powi: "pow2 e = 2 powi e"
  by (simp add: pow2_def power_int_def power_inverse [symmetric] inverse_eq_divide power_one_over)

lemma pow2_mono: "e \<le> e' \<Longrightarrow> pow2 e \<le> pow2 e'"
  unfolding pow2_powi by (rule power_int_increasing) simp_all

lemma pow2_ge: "24 \<le> e \<Longrightarrow> (2::real) ^ 24 \<le> pow2 e"
  using pow2_mono [of 24 e] by (simp add: pow2_def)

lemma pow2_nonpos: "e \<le> 0 \<Longrightarrow> pow2 e = 1 / 2 ^ nat (- e)"
  by (cases "e = 0") (simp_all add: pow2_def)

lemma float32_exponent_below_cases:
  "float32_exponent_below a k = -126 \<or> pow2 (float32_exponent_below a k) \<le> a"
  by (induction k) simp_all



lemma round_half_even_int: "round_half_even (of_int k) = k"
  by (simp add: round_half_even_def)

lemma fround_nat:
  assumes "n < 2 ^ 24"
  shows "fround (Finite (real n)) = Finite (real n)"
proof -
  define e where "e = float32_exponent (real n)"
  have n: "real n < 2 ^ 24" using assms
    by (metis of_nat_less_iff of_nat_numeral of_nat_power)
  have "e \<le> 23"
  proof (rule ccontr)
    assume "\<not> e \<le> 23"
    then have e24: "24 \<le> e" by simp
    then have "pow2 e \<le> real n"
      using float32_exponent_below_cases [of "real n" 253] by (simp add: e_def float32_exponent_def)
    with pow2_ge [OF e24] n show False by simp
  qed
  then have u: "pow2 (e - 23) = 1 / 2 ^ nat (23 - e)" by (simp add: pow2_nonpos)
  have q: "real n / pow2 (e - 23) = of_int (int n * 2 ^ nat (23 - e))" by (simp add: u)
  have r: "of_int (round_half_even (real n / pow2 (e - 23))) * pow2 (e - 23) = real n"
    unfolding q round_half_even_int by (simp add: u)
  have big: "real n < pow2 128" using n by (simp add: pow2_def)
  have "fround_real (real n) = Finite (real n)"
    unfolding fround_real_def Let_def abs_of_nat e_def [symmetric] r using big by simp
  then show ?thesis by simp
qed

lemma store_nat: "n < 2 ^ 24 \<Longrightarrow> store arrayType (Finite (real n)) = Finite (real n)"
  using fround_nat [of n] by (cases arrayType) (simp_all add: store_def)


subsection \<open>The generator\<close>

lemma unsigned_real_bound:
  "0 \<le> (unsigned (w :: 32 word) :: real) \<and> (unsigned (w :: 32 word) :: real) < 4294967296"
proof -
  have "unat w < 4294967296" using unsigned_less [of w, where 'a = nat] by simp
  then have "real (unat w) < real 4294967296" by (simp only: of_nat_less_iff)
  moreover have "0 \<le> real (unat w)" by (rule of_nat_0_le_iff)
  ultimately show ?thesis by simp
qed

lemma random_js_range: "0 \<le> fst (random_js s) \<and> fst (random_js s) < 1"
  using unsigned_real_bound [of "xorshift32 s"] by (simp add: random_js_def Let_def)

lemma randomCentered_eq: "randomCentered s = (fst (random_js s) - 0.5, xorshift32 s)"
  by (simp add: randomCentered_def random_js_def Let_def)

lemma randomCentered_range: "- 0.5 \<le> fst (randomCentered s) \<and> fst (randomCentered s) < 0.5"
  using random_js_range [of s] by (simp add: randomCentered_eq)



subsection \<open>The seed\<close>

lemma to_int32_word: "(word_of_int (to_int32 n) :: 32 word) = word_of_int n"
  by (simp add: to_int32_def)

lemma to_int32_zero_iff: "to_int32 n = 0 \<longleftrightarrow> (word_of_int n :: 32 word) = 0"
  by (simp add: to_int32_def signed_eq_0_iff)

lemma to_int32_idem: "to_int32 (to_int32 n) = to_int32 n"
  by (simp add: to_int32_def)

lemma to_int32_small: "- (2 ^ 31) \<le> n \<Longrightarrow> n < 2 ^ 31 \<Longrightarrow> to_int32 n = n"
  unfolding to_int32_def by (simp add: signed_take_bit_int_eq_self_iff sint_sbintrunc')

lemma fl53_small: "n < 2 ^ 53 \<Longrightarrow> fl53 n = n"
  by (simp add: fl53_def)

lemma seed_state:
  "seedRng (if request_seed r n = 0 then 1 else request_seed r n)
     = (let w = (word_of_nat (fl53 (fl53 (r * 2654435761) + n)) :: 32 word) in if w = 0 then 1 else w)"
proof -
  let ?m = "fl53 (fl53 (r * 2654435761) + n)"
  have w: "(word_of_int (int ?m) :: 32 word) = word_of_nat ?m" by simp
  show ?thesis
  proof (cases "(word_of_nat ?m :: 32 word) = 0")
    case True
    then have "request_seed r n = 0"
      unfolding request_seed_def to_int32_zero_iff w .
    then show ?thesis using True by (simp add: seedRng_def to_int32_def Let_def)
  next
    case False
    then have nz: "request_seed r n \<noteq> 0"
      unfolding request_seed_def to_int32_zero_iff w .
    have "to_int32 (request_seed r n) = request_seed r n"
      by (simp add: request_seed_def to_int32_idem)
    then show ?thesis using False nz
      by (simp add: seedRng_def Let_def) (simp add: request_seed_def to_int32_word)
  qed
qed

lemma seed_state_exact:
  assumes "r * 2654435761 + n < 2 ^ 53"
  shows "unat (seedRng (if request_seed r n = 0 then 1 else request_seed r n))
    = (if (r * 2654435761 + n) mod 2 ^ 32 = 0 then 1 else (r * 2654435761 + n) mod 2 ^ 32)"
proof -
  have a: "fl53 (r * 2654435761) = r * 2654435761" using assms by (intro fl53_small) simp
  have b: "fl53 (fl53 (r * 2654435761) + n) = r * 2654435761 + n" using assms by (simp add: a fl53_small)
  have u: "unat (word_of_nat (r * 2654435761 + n) :: 32 word) = (r * 2654435761 + n) mod 2 ^ 32"
    by (simp only: unat_of_nat) simp
  have z: "(word_of_nat (r * 2654435761 + n) :: 32 word) = 0 \<longleftrightarrow> (r * 2654435761 + n) mod 2 ^ 32 = 0"
    using u by (metis unat_eq_0)
  show ?thesis
    unfolding seed_state b Let_def using u z by simp
qed

lemma seed_nonzero: "seedRng (if request_seed r n = 0 then 1 else request_seed r n) \<noteq> 0"
  unfolding seed_state Let_def by simp

subsection \<open>The loops\<close>

lemma line_step_rng: "g_rng (snd (line_step rt c ar t li p g)) = xorshift32 (g_rng g)"
  by (simp add: line_step_def Let_def split_beta randomCentered_eq split: call_result.splits)

lemma call_curve_table: "table_curve c \<Longrightarrow> \<exists>raw. fst (call_curve rt c tLine noise w li) = Returns raw"
  by (cases c) (simp_all add: call_curve_def split_beta Let_def)

lemma line_step_table: "table_curve c \<Longrightarrow> \<exists>v. fst (line_step rt c ar t li p g) = Inr v"
proof -
  assume "table_curve c"
  from call_curve_table [OF this]
  obtain raw where "fst (call_curve rt c (t * freqMul p + phaseAdd p) (fst (randomCentered (g_rng g))) (g_walk g) li) = Returns raw"
    by blast
  then show ?thesis by (simp add: line_step_def Let_def split_beta)
qed

lemma line_step_not_callable:
  "line_step rt (Inherited NotCallable) ar t li p g
     = (Inl (not_callable_message rt), g\<lparr>g_rng := xorshift32 (g_rng g)\<rparr>)"
  by (simp add: line_step_def call_curve_def Let_def randomCentered_eq)

lemma line_loop_draws:
  "\<exists>k. g_rng (snd (line_loop rt c ar t li ps g)) = (xorshift32 ^^ k) (g_rng g) \<and>
       (case fst (line_loop rt c ar t li ps g) of
          Inr vs \<Rightarrow> k = length ps \<and> length vs = length ps
        | Inl message \<Rightarrow> 1 \<le> k \<and> k \<le> length ps)"
proof (induction ps arbitrary: li g)
  case Nil
  show ?case by (rule exI [of _ 0]) simp
next
  case (Cons p ps)
  obtain r g1 where s: "line_step rt c ar t li p g = (r, g1)" by (cases "line_step rt c ar t li p g")
  have g1: "g_rng g1 = xorshift32 (g_rng g)" using line_step_rng [of rt c ar t li p g] s by simp
  show ?case
  proof (cases r)
    case (Inl message)
    show ?thesis by (rule exI [of _ 1]) (simp add: s Inl g1)
  next
    case (Inr v)
    obtain r2 g2 where l: "line_loop rt c ar t (Suc li) ps g1 = (r2, g2)"
      by (cases "line_loop rt c ar t (Suc li) ps g1")
    from Cons.IH [of "Suc li" g1] l
    obtain k where k: "g_rng g2 = (xorshift32 ^^ k) (g_rng g1)"
      "case r2 of Inr vs \<Rightarrow> k = length ps \<and> length vs = length ps | Inl message \<Rightarrow> 1 \<le> k \<and> k \<le> length ps"
      by auto
    have "g_rng g2 = (xorshift32 ^^ Suc k) (g_rng g)" using k(1) g1 by (simp add: funpow_swap1)
    then show ?thesis using k(2)
      by (intro exI [of _ "Suc k"]) (simp add: s Inr l split: sum.splits)
  qed
qed

lemma line_loop_table: "table_curve c \<Longrightarrow> \<exists>vs. fst (line_loop rt c ar t li ps g) = Inr vs"
proof (induction ps arbitrary: li g)
  case Nil
  show ?case by simp
next
  case (Cons p ps)
  obtain r g1 where s: "line_step rt c ar t li p g = (r, g1)" by (cases "line_step rt c ar t li p g")
  from line_step_table [OF Cons.prems, of rt ar t li p g] s obtain v where r: "r = Inr v" by auto
  from Cons.IH [OF Cons.prems, of "Suc li" g1] obtain vs where "fst (line_loop rt c ar t (Suc li) ps g1) = Inr vs"
    by blast
  then show ?case by (simp add: s r split_beta split: sum.splits prod.splits)
qed

lemma point_loop_draws:
  "\<exists>k. g_rng (snd (point_loop rt c ar ps xm is g)) = (xorshift32 ^^ k) (g_rng g) \<and>
       (case fst (point_loop rt c ar ps xm is g) of
          Inr rows \<Rightarrow> k = length is * length ps \<and> map fst rows = map (\<lambda>i. store ar (Finite (real i))) is
                       \<and> (\<forall>row\<in>set rows. length (snd row) = length ps)
        | Inl message \<Rightarrow> 1 \<le> k \<and> k \<le> length is * length ps)"
proof (induction "is" arbitrary: g)
  case Nil
  show ?case by (rule exI [of _ 0]) simp
next
  case (Cons i "is")
  obtain r g1 where s: "line_loop rt c ar (real i / xm) 0 ps g = (r, g1)"
    by (cases "line_loop rt c ar (real i / xm) 0 ps g")
  from line_loop_draws [of rt c ar "real i / xm" 0 ps g] s
  obtain k1 where k1: "g_rng g1 = (xorshift32 ^^ k1) (g_rng g)"
    "case r of Inr vs \<Rightarrow> k1 = length ps \<and> length vs = length ps | Inl message \<Rightarrow> 1 \<le> k1 \<and> k1 \<le> length ps"
    by auto
  show ?case
  proof (cases r)
    case (Inl message)
    with k1 have "1 \<le> k1" "k1 \<le> length ps" by simp_all
    then have "k1 \<le> Suc (length is) * length ps" by simp
    then show ?thesis using k1(1) \<open>1 \<le> k1\<close>
      by (intro exI [of _ k1]) (simp add: s Inl Let_def)
  next
    case (Inr col)
    with k1 have c: "k1 = length ps" "length col = length ps" by simp_all
    obtain r2 g2 where l: "point_loop rt c ar ps xm is g1 = (r2, g2)"
      by (cases "point_loop rt c ar ps xm is g1")
    from Cons.IH [of g1] l
    obtain k2 where k2: "g_rng g2 = (xorshift32 ^^ k2) (g_rng g1)"
      "case r2 of
          Inr rows \<Rightarrow> k2 = length is * length ps \<and> map fst rows = map (\<lambda>i. store ar (Finite (real i))) is
                       \<and> (\<forall>row\<in>set rows. length (snd row) = length ps)
        | Inl message \<Rightarrow> 1 \<le> k2 \<and> k2 \<le> length is * length ps"
      by auto
    have g2: "g_rng g2 = (xorshift32 ^^ (k2 + k1)) (g_rng g)" using k2(1) k1(1) by (simp add: funpow_add)
    show ?thesis
    proof (cases r2)
      case (Inl message)
      with k2(2) have "1 \<le> k2" "k2 \<le> length is * length ps" by simp_all
      then show ?thesis using g2 c
        by (intro exI [of _ "k2 + k1"]) (simp add: s Inr l Inl Let_def)
    next
      case (Inr rows)
      with k2(2) have "k2 = length is * length ps" "map fst rows = map (\<lambda>i. store ar (Finite (real i))) is"
        "\<forall>row\<in>set rows. length (snd row) = length ps" by simp_all
      then show ?thesis using g2 c
        by (intro exI [of _ "k2 + k1"]) (simp add: s \<open>r = Inr col\<close> l Inr Let_def)
    qed
  qed
qed

lemma point_loop_table: "table_curve c \<Longrightarrow> \<exists>rows. fst (point_loop rt c ar ps xm is g) = Inr rows"
proof (induction "is" arbitrary: g)
  case Nil
  show ?case by simp
next
  case (Cons i "is")
  obtain r g1 where s: "line_loop rt c ar (real i / xm) 0 ps g = (r, g1)"
    by (cases "line_loop rt c ar (real i / xm) 0 ps g")
  from line_loop_table [OF Cons.prems, of rt ar "real i / xm" 0 ps g] s obtain col where r: "r = Inr col" by auto
  from Cons.IH [OF Cons.prems, of g1] obtain rows where "fst (point_loop rt c ar ps xm is g1) = Inr rows"
    by blast
  then show ?case by (simp add: s r Let_def split_beta split: sum.splits prod.splits)
qed

lemma point_loop_length:
  "fst (point_loop rt c ar ps xm is g) = Inr rows \<Longrightarrow> length rows = length is"
  using point_loop_draws [of rt c ar ps xm "is" g]
  by (auto dest: arg_cong [where f = length])

subsection \<open>The data generated\<close>

lemma length_computeLineParams: "length (computeLineParams lines curveType) = lines"
  by (simp add: computeLineParams_def Let_def)

lemma generateData_draws:
  "\<exists>k. snd (generateData rt points lines curveType dataFormat s) = (xorshift32 ^^ k) s \<and>
     (case fst (generateData rt points lines curveType dataFormat s) of
        Inr gd \<Rightarrow> k = points * lines
                 \<and> gd_x gd = map (\<lambda>i. store (gd_type gd) (Finite (real i))) [0..<points]
                 \<and> length (gd_ys gd) = lines \<and> (\<forall>ys\<in>set (gd_ys gd). length ys = points)
      | Inl message \<Rightarrow> 1 \<le> k \<and> k \<le> points * lines)"
proof -
  define ar where "ar = (if dataFormat = Float64 then Float64Array else Float32Array)"
  define g0 where "g0 = \<lparr>g_rng = s,
      g_walk = (if curveType = ''randomWalk'' then replicate lines (Finite 0) else []),
      g_yMin = PosInf, g_yMax = NegInf\<rparr>"
  let ?loop = "point_loop rt (select_curve rt curveType) ar (computeLineParams lines curveType)
      (real points - 1) [0..<points] g0"
  obtain r g where l: "?loop = (r, g)" by (cases ?loop)
  have gd: "generateData rt points lines curveType dataFormat s =
      (case r of Inl message \<Rightarrow> (Inl message, g_rng g)
       | Inr rows \<Rightarrow> (Inr \<lparr>gd_type = ar, gd_x = map fst rows,
             gd_ys = map (\<lambda>li. map (\<lambda>row. snd row ! li) rows) [0..<lines],
             gd_yMin = g_yMin g, gd_yMax = g_yMax g\<rparr>, g_rng g))"
    using l by (simp add: generateData_def Let_def ar_def g0_def split: sum.splits)
  from point_loop_draws [of rt "select_curve rt curveType" ar "computeLineParams lines curveType"
      "real points - 1" "[0..<points]" g0] l
  have "\<exists>k. g_rng g = (xorshift32 ^^ k) s \<and>
    (case r of
       Inr rows \<Rightarrow> k = points * lines \<and> map fst rows = map (\<lambda>i. store ar (Finite (real i))) [0..<points]
                    \<and> (\<forall>row\<in>set rows. length (snd row) = lines)
     | Inl message \<Rightarrow> 1 \<le> k \<and> k \<le> points * lines)"
    by (cases r) (simp_all add: g0_def length_computeLineParams)
  then obtain k where k: "g_rng g = (xorshift32 ^^ k) s"
    "case r of
       Inr rows \<Rightarrow> k = points * lines \<and> map fst rows = map (\<lambda>i. store ar (Finite (real i))) [0..<points]
                    \<and> (\<forall>row\<in>set rows. length (snd row) = lines)
     | Inl message \<Rightarrow> 1 \<le> k \<and> k \<le> points * lines"
    by blast
  show ?thesis
  proof (cases r)
    case (Inl message)
    with k show ?thesis by (intro exI [of _ k]) (simp add: gd)
  next
    case (Inr rows)
    with k(2) have x: "map fst rows = map (\<lambda>i. store ar (Finite (real i))) [0..<points]"
      and kk: "k = points * lines" by simp_all
    from x have "length rows = points" by (auto dest: arg_cong [where f = length])
    with k(1) kk x show ?thesis by (intro exI [of _ k]) (simp add: gd Inr)
  qed
qed

lemma generateData_table:
  "table_curve (select_curve rt curveType)
     \<Longrightarrow> \<exists>gd. fst (generateData rt points lines curveType dataFormat s) = Inr gd"
proof -
  assume t: "table_curve (select_curve rt curveType)"
  define ar where "ar = (if dataFormat = Float64 then Float64Array else Float32Array)"
  define g0 where "g0 = \<lparr>g_rng = s,
      g_walk = (if curveType = ''randomWalk'' then replicate lines (Finite 0) else []),
      g_yMin = PosInf, g_yMax = NegInf\<rparr>"
  from point_loop_table [OF t, of rt ar "computeLineParams lines curveType" "real points - 1" "[0..<points]" g0]
  obtain rows where "fst (point_loop rt (select_curve rt curveType) ar (computeLineParams lines curveType)
      (real points - 1) [0..<points] g0) = Inr rows" by blast
  then show ?thesis
    by (simp add: generateData_def Let_def ar_def g0_def split_beta split: sum.splits prod.splits)
qed

lemma generateData_not_callable:
  assumes "select_curve rt curveType = Inherited NotCallable" "0 < points" "0 < lines"
  shows "generateData rt points lines curveType dataFormat s = (Inl (not_callable_message rt), xorshift32 s)"
proof -
  obtain is' where i: "[0..<points] = 0 # is'" using assms(2) by (cases points) (simp_all add: upt_rec)
  obtain p ps where p: "computeLineParams lines curveType = p # ps"
    using length_computeLineParams [of lines curveType] assms(3)
    by (cases "computeLineParams lines curveType") simp_all
  show ?thesis
    unfolding generateData_def Let_def assms(1) i p
    by (simp add: line_step_not_callable)
qed

lemma generateData_x:
  assumes "fst (generateData rt points lines curveType dataFormat s) = Inr gd" "points \<le> 10000000"
  shows "gd_x gd = map (\<lambda>i. Finite (real i)) [0..<points]"
proof -
  from generateData_draws [of rt points lines curveType dataFormat s] assms(1)
  have "gd_x gd = map (\<lambda>i. store (gd_type gd) (Finite (real i))) [0..<points]" by auto
  also have "\<dots> = map (\<lambda>i. Finite (real i)) [0..<points]"
  proof (rule map_cong [OF refl])
    fix i assume "i \<in> set [0..<points]"
    then have "i < 2 ^ 24" using assms(2) by simp
    then show "store (gd_type gd) (Finite (real i)) = Finite (real i)" by (rule store_nat)
  qed
  finally show ?thesis .
qed

subsection \<open>One line of a curve of the table\<close>






subsection \<open>One line of the linear curve\<close>


lemma select_linear: "select_curve rt ''linear'' = Plain curve_linear"
  by (simp add: select_curve_def curveFunctions_def)






subsection \<open>The message handler\<close>

lemma clamp_points_range: "10 \<le> clamp_points n \<and> clamp_points n \<le> 10000000"
  by (simp add: clamp_points_def MAX_POINTS_def)

lemma clamp_lines_range: "1 \<le> clamp_lines n \<and> clamp_lines n \<le> 1000"
  by (simp add: clamp_lines_def MAX_LINES_def)

lemma try_body_too_large:
  "estBytes req > MAX_BYTES \<Longrightarrow> try_body rt req now st =
     (Inl (too_large_message (estBytes req) (clamp_lines (rq_numLines req)) (clamp_points (rq_numPoints req))), st)"
  by (simp add: try_body_def Let_def)

lemma try_body_ok:
  "estBytes req \<le> MAX_BYTES \<Longrightarrow> try_body rt req now st =
     (let out = generateData rt (nat (clamp_points (rq_numPoints req))) (nat (clamp_lines (rq_numLines req)))
                  (rq_curveType req) (rq_dataFormat req)
                  (seedRng (if request_seed (rq_requestId req) now = 0 then 1
                            else request_seed (rq_requestId req) now))
      in case fst out of
           Inl message \<Rightarrow> (Inl message, snd out)
         | Inr gd \<Rightarrow>
             (Inr (success_response req (clamp_points (rq_numPoints req)) (clamp_lines (rq_numLines req)) gd),
              snd out))"
  by (simp add: try_body_def Let_def split_beta split: sum.splits prod.splits)

lemma onmessage_too_large:
  "estBytes req > MAX_BYTES \<Longrightarrow> onmessage rt req now st =
     ([ErrorResponse \<lparr>er_requestId = rq_requestId req,
         er_error = too_large_message (estBytes req) (clamp_lines (rq_numLines req))
                      (clamp_points (rq_numPoints req))\<rparr>], st)"
  by (simp add: onmessage_def try_body_too_large)

lemma onmessage_ok:
  "estBytes req \<le> MAX_BYTES \<Longrightarrow> onmessage rt req now st =
     (let out = generateData rt (nat (clamp_points (rq_numPoints req))) (nat (clamp_lines (rq_numLines req)))
                  (rq_curveType req) (rq_dataFormat req)
                  (seedRng (if request_seed (rq_requestId req) now = 0 then 1
                            else request_seed (rq_requestId req) now))
      in case fst out of
           Inr gd \<Rightarrow>
             ([SuccessResponse (success_response req (clamp_points (rq_numPoints req))
                                  (clamp_lines (rq_numLines req)) gd)], snd out)
         | Inl message \<Rightarrow>
             ([ErrorResponse \<lparr>er_requestId = rq_requestId req, er_error = message\<rparr>], snd out))"
  by (simp add: onmessage_def try_body_ok Let_def split: sum.splits)

lemma sr_requestId_success: "sr_requestId (success_response req p l gd) = rq_requestId req"
  by (simp add: success_response_def)

lemma sr_length_success: "sr_length (success_response req p l gd) = p"
  by (simp add: success_response_def)

lemma sr_numLines_success: "sr_numLines (success_response req p l gd) = l"
  by (simp add: success_response_def)

lemma clamped_positive: "0 < nat (clamp_points n) \<and> 0 < nat (clamp_lines m)"
  using clamp_points_range [of n] clamp_lines_range [of m] by simp

lemma select_proto: "select_curve example_runtime ''__proto__'' = Inherited NotCallable"
  by (simp add: select_curve_def curveFunctions_def example_runtime_def)

text \<open>
  C4. For every request message, in every runtime, the handler posts exactly one response,
  and the response carries the request's id; when the body of the \<open>try\<close> block throws, the
  one response is the error response with the thrown message, and when it does not, it is the
  success response. The body throws when the size guard trips, and when \<open>generateData\<close>
  throws, as it does when the curve type names an inherited value that is not a function; it
  does not throw within the cap when the curve is one of the table, or the default.
\<close>

theorem C4_one_response:
  "\<exists>response rngState'.
      onmessage rt req now rngState = ([response], rngState') \<and>
      response_requestId response = rq_requestId req \<and>
      (\<forall>message. fst (try_body rt req now rngState) = Inl message \<longrightarrow>
         response = ErrorResponse \<lparr>er_requestId = rq_requestId req, er_error = message\<rparr>) \<and>
      (\<forall>r. fst (try_body rt req now rngState) = Inr r \<longrightarrow> response = SuccessResponse r) \<and>
      (estBytes req > MAX_BYTES \<longrightarrow>
         fst (try_body rt req now rngState)
           = Inl (too_large_message (estBytes req) (clamp_lines (rq_numLines req))
                    (clamp_points (rq_numPoints req)))) \<and>
      (estBytes req \<le> MAX_BYTES \<longrightarrow>
         (\<forall>message.
             fst (generateData rt (nat (clamp_points (rq_numPoints req))) (nat (clamp_lines (rq_numLines req)))
                    (rq_curveType req) (rq_dataFormat req)
                    (seedRng (if request_seed (rq_requestId req) now = 0 then 1
                              else request_seed (rq_requestId req) now))) = Inl message
             \<longrightarrow> fst (try_body rt req now rngState) = Inl message) \<and>
         (select_curve rt (rq_curveType req) = Inherited NotCallable \<longrightarrow>
            fst (try_body rt req now rngState) = Inl (not_callable_message rt)) \<and>
         (table_curve (select_curve rt (rq_curveType req)) \<longrightarrow>
            (\<exists>r. fst (try_body rt req now rngState) = Inr r)))"
proof (cases "estBytes req > MAX_BYTES")
  case True
  then show ?thesis by (simp add: onmessage_def try_body_too_large)
next
  case False
  then have ok: "estBytes req \<le> MAX_BYTES" by simp
  define rng0 where "rng0 = seedRng (if request_seed (rq_requestId req) now = 0 then 1
                              else request_seed (rq_requestId req) now)"
  define out where "out = generateData rt (nat (clamp_points (rq_numPoints req)))
      (nat (clamp_lines (rq_numLines req))) (rq_curveType req) (rq_dataFormat req) rng0"
  have t: "try_body rt req now rngState =
      (case fst out of
           Inl message \<Rightarrow> (Inl message, snd out)
         | Inr gd \<Rightarrow>
             (Inr (success_response req (clamp_points (rq_numPoints req)) (clamp_lines (rq_numLines req)) gd),
              snd out))"
    unfolding try_body_ok [OF ok] Let_def out_def rng0_def ..
  have nc: "fst out = Inl (not_callable_message rt)"
    if "select_curve rt (rq_curveType req) = Inherited NotCallable"
    unfolding out_def
    using generateData_not_callable [OF that, of "nat (clamp_points (rq_numPoints req))"
        "nat (clamp_lines (rq_numLines req))" "rq_dataFormat req" rng0] clamped_positive
    by simp
  have tc: "\<exists>gd. fst out = Inr gd" if "table_curve (select_curve rt (rq_curveType req))"
    unfolding out_def by (rule generateData_table [OF that])
  show ?thesis
  proof (cases "fst out")
    case (Inl message)
    then show ?thesis using ok nc tc
      by (auto simp: onmessage_def t out_def [symmetric] rng0_def [symmetric])
  next
    case (Inr gd)
    then show ?thesis using ok nc tc
      by (auto simp: onmessage_def t out_def [symmetric] rng0_def [symmetric] sr_requestId_success)
  qed
qed

lemma est_big: "estBytes \<lparr>rq_requestId = 7, rq_numPoints = 10000000, rq_numLines = 1000, rq_curveType = ''sin'', rq_dataFormat = Float64\<rparr> = 80080000000"
  by (simp add: estBytes_def clamp_points_def clamp_lines_def bytesPerElement_def MAX_POINTS_def MAX_LINES_def to_int32_small)

lemma est_proto: "estBytes \<lparr>rq_requestId = 3, rq_numPoints = 10, rq_numLines = 1, rq_curveType = ''__proto__'', rq_dataFormat = Float32\<rparr> = 80"
  by (simp add: estBytes_def clamp_points_def clamp_lines_def bytesPerElement_def MAX_POINTS_def MAX_LINES_def to_int32_small)

lemma est_big32: "estBytes \<lparr>rq_requestId = 8, rq_numPoints = 10000000, rq_numLines = 1000, rq_curveType = ''linear'', rq_dataFormat = Float32\<rparr> = 40040000000"
  by (simp add: estBytes_def clamp_points_def clamp_lines_def bytesPerElement_def MAX_POINTS_def MAX_LINES_def to_int32_small)

lemma est_small: "estBytes \<lparr>rq_requestId = 3, rq_numPoints = 10, rq_numLines = 1, rq_curveType = ''linear'', rq_dataFormat = Float32\<rparr> = 80"
  by (simp add: estBytes_def clamp_points_def clamp_lines_def bytesPerElement_def MAX_POINTS_def MAX_LINES_def to_int32_small)

theorem C4_one_response_witness:
  "fst (onmessage example_runtime \<lparr>rq_requestId = 7, rq_numPoints = 10000000, rq_numLines = 1000, rq_curveType = ''sin'', rq_dataFormat = Float64\<rparr> 1700000000000 1)
     = [ErrorResponse \<lparr>er_requestId = 7, er_error = ''Data too large: 76370.2MB for 1000 lines '' @ [CHR 0xC3, CHR 0x97] @ '' 10000000 points (max 512MB)''\<rparr>]
   \<and> fst (onmessage example_runtime \<lparr>rq_requestId = 3, rq_numPoints = 10, rq_numLines = 1, rq_curveType = ''__proto__'', rq_dataFormat = Float32\<rparr> 1700000000000 1)
     = [ErrorResponse \<lparr>er_requestId = 3, er_error = ''curveFn is not a function''\<rparr>]
   \<and> (\<exists>r. fst (onmessage example_runtime \<lparr>rq_requestId = 3, rq_numPoints = 10, rq_numLines = 1, rq_curveType = ''linear'', rq_dataFormat = Float32\<rparr> 1700000000000 1)
          = [SuccessResponse r] \<and> sr_requestId r = 3)"
proof -
  let ?lin = "\<lparr>rq_requestId = 3, rq_numPoints = 10, rq_numLines = 1, rq_curveType = ''linear'', rq_dataFormat = Float32\<rparr>"
  let ?req = "\<lparr>rq_requestId = 7, rq_numPoints = 10000000, rq_numLines = 1000, rq_curveType = ''sin'', rq_dataFormat = Float64\<rparr>"
  let ?proto = "\<lparr>rq_requestId = 3, rq_numPoints = 10, rq_numLines = 1, rq_curveType = ''__proto__'', rq_dataFormat = Float32\<rparr>"
  have big: "estBytes ?req > MAX_BYTES" by (simp add: est_big MAX_BYTES_def)
  have m: "too_large_message (estBytes ?req) (clamp_lines (rq_numLines ?req)) (clamp_points (rq_numPoints ?req))
      = ''Data too large: 76370.2MB for 1000 lines '' @ [CHR 0xC3, CHR 0x97] @ '' 10000000 points (max 512MB)''"
    unfolding est_big
    by (simp add: too_large_message_def toFixed1_MB_def toFixed0_MB_def MAX_BYTES_def Let_def char_of_eq_iff
        clamp_points_def clamp_lines_def MAX_POINTS_def MAX_LINES_def to_int32_small)
  from C4_one_response [of example_runtime ?req 1700000000000 1] big
  have 1: "fst (onmessage example_runtime ?req 1700000000000 1)
     = [ErrorResponse \<lparr>er_requestId = 7, er_error = ''Data too large: 76370.2MB for 1000 lines '' @ [CHR 0xC3, CHR 0x97] @ '' 10000000 points (max 512MB)''\<rparr>]"
    unfolding m by auto
  have small: "estBytes ?proto \<le> MAX_BYTES" by (simp add: est_proto MAX_BYTES_def)
  have sel: "select_curve example_runtime (rq_curveType ?proto) = Inherited NotCallable"
    by (simp add: select_proto)
  have msg: "not_callable_message example_runtime = ''curveFn is not a function''"
    by (simp add: example_runtime_def)
  from C4_one_response [of example_runtime ?proto 1700000000000 1] small sel
  have 2: "fst (onmessage example_runtime ?proto 1700000000000 1)
     = [ErrorResponse \<lparr>er_requestId = 3, er_error = ''curveFn is not a function''\<rparr>]"
    unfolding msg by auto
  have sl: "estBytes ?lin \<le> MAX_BYTES" by (simp add: est_small MAX_BYTES_def)
  have tl: "table_curve (select_curve example_runtime (rq_curveType ?lin))" by (simp add: select_linear)
  from C4_one_response [of example_runtime ?lin 1700000000000 1] sl tl
  have 3: "\<exists>r. fst (onmessage example_runtime ?lin 1700000000000 1) = [SuccessResponse r] \<and> sr_requestId r = 3"
    by auto
  from 1 2 3 show ?thesis by blast
qed

text \<open>
  C5. With the estimate \<open>(1 + lines) * points * bytesPerElement\<close> of the clamped counts (8
  bytes for the 64-bit format, 4 otherwise) and the cap of 512 MiB: above the cap the one
  response is the size-limit error and the generator is left as it was, \<open>generateData\<close>,
  which alone allocates the buffers, not being reached. Otherwise the generator is seeded and
  \<open>generateData\<close> runs on the clamped counts, and the response is made of its outcome: the
  success response built from the data it returns, or the error response with the message of
  what it throws. It draws at least once and at most once per point and line; when it
  returns it has drawn once per point and line, the x series is \<open>0, 1, ..., points - 1\<close>,
  and there are \<open>lines\<close> y series of \<open>points\<close> values each. It returns whenever the curve is
  one of the table, or the default.
\<close>

theorem C5_size_guard:
  "estBytes req = (1 + clamp_lines (rq_numLines req)) * clamp_points (rq_numPoints req)
                    * (if rq_dataFormat req = Float64 then 8 else 4) \<and>
   MAX_BYTES = 536870912 \<and>
   (estBytes req > MAX_BYTES \<longrightarrow>
      onmessage rt req now rngState =
        ([ErrorResponse \<lparr>er_requestId = rq_requestId req,
            er_error = too_large_message (estBytes req) (clamp_lines (rq_numLines req))
                         (clamp_points (rq_numPoints req))\<rparr>], rngState)) \<and>
   (estBytes req \<le> MAX_BYTES \<longrightarrow>
      (let points = clamp_points (rq_numPoints req);
           lines = clamp_lines (rq_numLines req);
           rng0 = seedRng (if request_seed (rq_requestId req) now = 0 then 1
                           else request_seed (rq_requestId req) now);
           out = generateData rt (nat points) (nat lines) (rq_curveType req) (rq_dataFormat req) rng0
       in onmessage rt req now rngState =
            (case fst out of
               Inr gd \<Rightarrow> ([SuccessResponse (success_response req points lines gd)], snd out)
             | Inl message \<Rightarrow>
                 ([ErrorResponse \<lparr>er_requestId = rq_requestId req, er_error = message\<rparr>], snd out)) \<and>
          (\<exists>k. snd out = (xorshift32 ^^ k) rng0 \<and> 1 \<le> k \<and> k \<le> nat points * nat lines \<and>
             (case fst out of
                Inr gd \<Rightarrow> k = nat points * nat lines
                          \<and> gd_x gd = map (\<lambda>i. Finite (real i)) [0..<nat points]
                          \<and> length (gd_ys gd) = nat lines
                          \<and> (\<forall>ys\<in>set (gd_ys gd). length ys = nat points)
              | Inl message \<Rightarrow> True)) \<and>
          (table_curve (select_curve rt (rq_curveType req)) \<longrightarrow> (\<exists>gd. fst out = Inr gd))))"
proof -
  have a: "estBytes req = (1 + clamp_lines (rq_numLines req)) * clamp_points (rq_numPoints req)
                    * (if rq_dataFormat req = Float64 then 8 else 4)"
    by (simp add: estBytes_def bytesPerElement_def)
  have b: "MAX_BYTES = 536870912" by (simp add: MAX_BYTES_def)
  define rng0 where "rng0 = seedRng (if request_seed (rq_requestId req) now = 0 then 1
                              else request_seed (rq_requestId req) now)"
  define P where "P = nat (clamp_points (rq_numPoints req))"
  define L where "L = nat (clamp_lines (rq_numLines req))"
  define out where "out = generateData rt P L (rq_curveType req) (rq_dataFormat req) rng0"
  have pos: "0 < P" "0 < L" "P \<le> 10000000"
    using clamp_points_range [of "rq_numPoints req"] clamp_lines_range [of "rq_numLines req"]
    by (simp_all add: P_def L_def nat_le_iff)
  have d: "onmessage rt req now rngState =
            (case fst out of
               Inr gd \<Rightarrow> ([SuccessResponse (success_response req (clamp_points (rq_numPoints req))
                                               (clamp_lines (rq_numLines req)) gd)], snd out)
             | Inl message \<Rightarrow>
                 ([ErrorResponse \<lparr>er_requestId = rq_requestId req, er_error = message\<rparr>], snd out))"
    if "estBytes req \<le> MAX_BYTES"
    unfolding onmessage_ok [OF that] Let_def out_def rng0_def P_def L_def ..
  from generateData_draws [of rt P L "rq_curveType req" "rq_dataFormat req" rng0]
  obtain k where k: "snd out = (xorshift32 ^^ k) rng0"
    "case fst out of
        Inr gd \<Rightarrow> k = P * L
                 \<and> gd_x gd = map (\<lambda>i. store (gd_type gd) (Finite (real i))) [0..<P]
                 \<and> length (gd_ys gd) = L \<and> (\<forall>ys\<in>set (gd_ys gd). length ys = P)
      | Inl message \<Rightarrow> 1 \<le> k \<and> k \<le> P * L"
    unfolding out_def by blast
  have e: "\<exists>k. snd out = (xorshift32 ^^ k) rng0 \<and> 1 \<le> k \<and> k \<le> P * L \<and>
             (case fst out of
                Inr gd \<Rightarrow> k = P * L
                          \<and> gd_x gd = map (\<lambda>i. Finite (real i)) [0..<P]
                          \<and> length (gd_ys gd) = L
                          \<and> (\<forall>ys\<in>set (gd_ys gd). length ys = P)
              | Inl message \<Rightarrow> True)"
  proof (cases "fst out")
    case (Inl message)
    with k show ?thesis by (intro exI [of _ k]) simp
  next
    case (Inr gd)
    then have x: "gd_x gd = map (\<lambda>i. Finite (real i)) [0..<P]"
      unfolding out_def using pos(3) by (rule generateData_x)
    have "Suc 0 \<le> P * L" using pos by (simp add: Suc_le_eq)
    with k Inr x show ?thesis by (intro exI [of _ k]) simp
  qed
  have f: "table_curve (select_curve rt (rq_curveType req)) \<Longrightarrow> \<exists>gd. fst out = Inr gd"
    unfolding out_def by (rule generateData_table)
  show ?thesis
    unfolding Let_def
    using a b onmessage_too_large [of req rt now rngState] d e f
    unfolding out_def rng0_def P_def L_def
    by blast
qed

lemma seed_3: "seedRng (if request_seed 3 1700000000000 = 0 then 1 else request_seed 3 1700000000000) = 2861290771"
  unfolding seed_state by (simp add: fl53_def Let_def)

lemma xorshift32_seed_3: "xorshift32 2861290771 = 3574758887"
  by (simp add: xorshift32_def Let_def)

theorem C5_size_guard_witness:
  "onmessage example_runtime \<lparr>rq_requestId = 8, rq_numPoints = 10000000, rq_numLines = 1000, rq_curveType = ''linear'', rq_dataFormat = Float32\<rparr> 1700000000000 5
     = ([ErrorResponse \<lparr>er_requestId = 8, er_error = ''Data too large: 38185.1MB for 1000 lines '' @ [CHR 0xC3, CHR 0x97] @ '' 10000000 points (max 512MB)''\<rparr>], 5)
   \<and> (\<exists>r. onmessage example_runtime \<lparr>rq_requestId = 3, rq_numPoints = 10, rq_numLines = 1, rq_curveType = ''linear'', rq_dataFormat = Float32\<rparr> 1700000000000 5
             = ([SuccessResponse r], (xorshift32 ^^ 10) 2861290771)
         \<and> sr_requestId r = 3 \<and> sr_length r = 10
         \<and> sr_x r = Some (map (\<lambda>i. Finite (real i)) [0..<10]))
   \<and> onmessage example_runtime \<lparr>rq_requestId = 3, rq_numPoints = 10, rq_numLines = 1, rq_curveType = ''__proto__'', rq_dataFormat = Float32\<rparr> 1700000000000 5
       = ([ErrorResponse \<lparr>er_requestId = 3, er_error = ''curveFn is not a function''\<rparr>], 3574758887)"
proof -
  let ?big = "\<lparr>rq_requestId = 8, rq_numPoints = 10000000, rq_numLines = 1000, rq_curveType = ''linear'', rq_dataFormat = Float32\<rparr>"
  let ?small = "\<lparr>rq_requestId = 3, rq_numPoints = 10, rq_numLines = 1, rq_curveType = ''linear'', rq_dataFormat = Float32\<rparr>"
  let ?proto = "\<lparr>rq_requestId = 3, rq_numPoints = 10, rq_numLines = 1, rq_curveType = ''__proto__'', rq_dataFormat = Float32\<rparr>"
  have b: "estBytes ?big > MAX_BYTES" by (simp add: est_big32 MAX_BYTES_def)
  have m: "too_large_message (estBytes ?big) (clamp_lines (rq_numLines ?big)) (clamp_points (rq_numPoints ?big))
      = ''Data too large: 38185.1MB for 1000 lines '' @ [CHR 0xC3, CHR 0x97] @ '' 10000000 points (max 512MB)''"
    unfolding est_big32
    by (simp add: too_large_message_def toFixed1_MB_def toFixed0_MB_def MAX_BYTES_def Let_def char_of_eq_iff
        clamp_points_def clamp_lines_def MAX_POINTS_def MAX_LINES_def to_int32_small)
  have s: "estBytes ?small \<le> MAX_BYTES" by (simp add: est_small MAX_BYTES_def)
  have sp: "estBytes ?proto \<le> MAX_BYTES" by (simp add: est_proto MAX_BYTES_def)
  have cp: "clamp_points 10 = 10" "clamp_lines 1 = 1"
    by (simp_all add: clamp_points_def clamp_lines_def MAX_POINTS_def MAX_LINES_def to_int32_small)
  have n: "nat 10 = 10" "nat 1 = 1" by simp_all
  have fs: "rq_requestId ?small = 3" "rq_numPoints ?small = 10" "rq_numLines ?small = 1"
    "rq_curveType ?small = ''linear''" "rq_dataFormat ?small = Float32" by simp_all
  have fp: "rq_requestId ?proto = 3" "rq_numPoints ?proto = 10" "rq_numLines ?proto = 1"
    "rq_curveType ?proto = ''__proto__''" "rq_dataFormat ?proto = Float32" by simp_all
  from C5_size_guard [of ?big example_runtime 1700000000000 5] b m
  have 1: "onmessage example_runtime ?big 1700000000000 5 = ([ErrorResponse \<lparr>er_requestId = 8, er_error = ''Data too large: 38185.1MB for 1000 lines '' @ [CHR 0xC3, CHR 0x97] @ '' 10000000 points (max 512MB)''\<rparr>], 5)"
    by simp
  define out where "out = generateData example_runtime 10 1 ''linear'' Float32 2861290771"
  note i = C5_size_guard [of ?small example_runtime 1700000000000 5, unfolded Let_def fs cp n seed_3,
      folded out_def]
  from i s
  have c: "onmessage example_runtime ?small 1700000000000 5 =
            (case fst out of
               Inr gd \<Rightarrow> ([SuccessResponse (success_response ?small 10 1 gd)], snd out)
             | Inl message \<Rightarrow> ([ErrorResponse \<lparr>er_requestId = 3, er_error = message\<rparr>], snd out))"
    and k: "\<exists>k. snd out = (xorshift32 ^^ k) 2861290771 \<and> 1 \<le> k \<and> k \<le> 10 * 1 \<and>
             (case fst out of
                Inr gd \<Rightarrow> k = 10 * 1 \<and> gd_x gd = map (\<lambda>i. Finite (real i)) [0..<10]
                          \<and> length (gd_ys gd) = 1 \<and> (\<forall>ys\<in>set (gd_ys gd). length ys = 10)
              | Inl message \<Rightarrow> True)"
    and t: "table_curve (select_curve example_runtime ''linear'') \<longrightarrow> (\<exists>gd. fst out = Inr gd)"
    by blast+
  from t obtain gd where gd: "fst out = Inr gd" by (auto simp: select_linear)
  from k gd have "snd out = (xorshift32 ^^ 10) 2861290771" "gd_x gd = map (\<lambda>i. Finite (real i)) [0..<10]"
    by auto
  with c gd
  have 2: "\<exists>r. onmessage example_runtime ?small 1700000000000 5 = ([SuccessResponse r], (xorshift32 ^^ 10) 2861290771)
         \<and> sr_requestId r = 3 \<and> sr_length r = 10 \<and> sr_x r = Some (map (\<lambda>i. Finite (real i)) [0..<10])"
    by (simp add: success_response_def)
  have o: "generateData example_runtime 10 1 ''__proto__'' Float32 2861290771
      = (Inl ''curveFn is not a function'', 3574758887)"
    using generateData_not_callable [OF select_proto, of 10 1 Float32 2861290771]
    by (simp add: xorshift32_seed_3 example_runtime_def)
  note j = C5_size_guard [of ?proto example_runtime 1700000000000 5, unfolded Let_def fp cp n seed_3 o]
  from j sp
  have 3: "onmessage example_runtime ?proto 1700000000000 5
       = ([ErrorResponse \<lparr>er_requestId = 3, er_error = ''curveFn is not a function''\<rparr>], 3574758887)"
    by simp
  from 1 2 3 show ?thesis by blast
qed

text \<open>
  C7, as the code has it. The generator is seeded from \<open>requestId * 2654435761 + now\<close>,
  computed in double arithmetic: whenever that sum is below \<open>2^53\<close> (so that the product and
  the sum are exact) the state is the sum modulo \<open>2^32\<close>, or 1 when that is zero; the state
  is never zero. A request that passes the size guard seeds once, whatever state the
  generator was in, and then only draws, at least once and at most once per point and line:
  once per point and line when the response is a success, as it is for the curves of the
  table and the default; once when the curve type names an inherited value that is not a
  function. A request that the size guard refuses leaves the generator as it was. A draw
  replaces the state \<open>s\<close> by \<open>s XOR (s << 13)\<close>, then \<open>XOR (>>> 17)\<close>, then \<open>XOR (<< 5)\<close>, and
  returns the unsigned state over \<open>2^32\<close>, in \<open>[0, 1)\<close>; the centred draw is that minus 0.5,
  in \<open>[-0.5, 0.5)\<close>.
\<close>

theorem C7_xorshift_seed:
  "(requestId * 2654435761 + now < 2 ^ 53 \<longrightarrow>
      unat (seedRng (if request_seed requestId now = 0 then 1 else request_seed requestId now))
        = (if (requestId * 2654435761 + now) mod 2 ^ 32 = 0 then 1
           else (requestId * 2654435761 + now) mod 2 ^ 32)) \<and>
   seedRng (if request_seed requestId now = 0 then 1 else request_seed requestId now) \<noteq> 0 \<and>
   (estBytes req \<le> MAX_BYTES \<longrightarrow>
      (let rng0 = seedRng (if request_seed (rq_requestId req) now = 0 then 1
                           else request_seed (rq_requestId req) now);
           n = nat (clamp_points (rq_numPoints req)) * nat (clamp_lines (rq_numLines req))
       in (\<exists>k. snd (onmessage rt req now rngState) = (xorshift32 ^^ k) rng0 \<and> 1 \<le> k \<and> k \<le> n \<and>
                ((\<exists>r. fst (onmessage rt req now rngState) = [SuccessResponse r]) \<longrightarrow> k = n)) \<and>
          (table_curve (select_curve rt (rq_curveType req)) \<longrightarrow>
             snd (onmessage rt req now rngState) = (xorshift32 ^^ n) rng0) \<and>
          (select_curve rt (rq_curveType req) = Inherited NotCallable \<longrightarrow>
             snd (onmessage rt req now rngState) = xorshift32 rng0))) \<and>
   (estBytes req > MAX_BYTES \<longrightarrow> snd (onmessage rt req now rngState) = rngState) \<and>
   xorshift32 s = (let s1 = s XOR push_bit 13 s; s2 = s1 XOR drop_bit 17 s1 in s2 XOR push_bit 5 s2) \<and>
   random_js s = (real (unat (xorshift32 s)) / 2 ^ 32, xorshift32 s) \<and>
   0 \<le> fst (random_js s) \<and> fst (random_js s) < 1 \<and>
   randomCentered s = (fst (random_js s) - 0.5, xorshift32 s) \<and>
   - 0.5 \<le> fst (randomCentered s) \<and> fst (randomCentered s) < 0.5"
proof -
  define rng0 where "rng0 = seedRng (if request_seed (rq_requestId req) now = 0 then 1
                              else request_seed (rq_requestId req) now)"
  define P where "P = nat (clamp_points (rq_numPoints req))"
  define L where "L = nat (clamp_lines (rq_numLines req))"
  define out where "out = generateData rt P L (rq_curveType req) (rq_dataFormat req) rng0"
  have pos: "0 < P" "0 < L"
    using clamped_positive [of "rq_numPoints req" "rq_numLines req"] by (simp_all add: P_def L_def)
  have d: "onmessage rt req now rngState =
            (case fst out of
               Inr gd \<Rightarrow> ([SuccessResponse (success_response req (clamp_points (rq_numPoints req))
                                               (clamp_lines (rq_numLines req)) gd)], snd out)
             | Inl message \<Rightarrow>
                 ([ErrorResponse \<lparr>er_requestId = rq_requestId req, er_error = message\<rparr>], snd out))"
    if "estBytes req \<le> MAX_BYTES"
    unfolding onmessage_ok [OF that] Let_def out_def rng0_def P_def L_def ..
  have sn: "snd (onmessage rt req now rngState) = snd out" if "estBytes req \<le> MAX_BYTES"
    unfolding d [OF that] by (simp split: sum.splits)
  from generateData_draws [of rt P L "rq_curveType req" "rq_dataFormat req" rng0]
  obtain k where k: "snd out = (xorshift32 ^^ k) rng0"
    "case fst out of
        Inr gd \<Rightarrow> k = P * L
                 \<and> gd_x gd = map (\<lambda>i. store (gd_type gd) (Finite (real i))) [0..<P]
                 \<and> length (gd_ys gd) = L \<and> (\<forall>ys\<in>set (gd_ys gd). length ys = P)
      | Inl message \<Rightarrow> 1 \<le> k \<and> k \<le> P * L"
    unfolding out_def by blast
  have one: "Suc 0 \<le> P * L" using pos by (simp add: Suc_le_eq)
  have a1: "\<exists>k. snd (onmessage rt req now rngState) = (xorshift32 ^^ k) rng0 \<and> 1 \<le> k \<and> k \<le> P * L \<and>
                ((\<exists>r. fst (onmessage rt req now rngState) = [SuccessResponse r]) \<longrightarrow> k = P * L)"
    if ok: "estBytes req \<le> MAX_BYTES"
  proof (cases "fst out")
    case (Inl message)
    with k show ?thesis by (intro exI [of _ k]) (simp add: d [OF ok])
  next
    case (Inr gd)
    with k one show ?thesis by (intro exI [of _ k]) (simp add: d [OF ok])
  qed
  have a2: "snd (onmessage rt req now rngState) = (xorshift32 ^^ (P * L)) rng0"
    if ok: "estBytes req \<le> MAX_BYTES" and t: "table_curve (select_curve rt (rq_curveType req))"
  proof -
    from generateData_table [OF t, of P L "rq_dataFormat req" rng0]
    obtain gd where "fst out = Inr gd" unfolding out_def by blast
    with k show ?thesis by (simp add: sn [OF ok])
  qed
  have a3: "snd (onmessage rt req now rngState) = xorshift32 rng0"
    if ok: "estBytes req \<le> MAX_BYTES" and t: "select_curve rt (rq_curveType req) = Inherited NotCallable"
    using generateData_not_callable [OF t pos, of "rq_dataFormat req" rng0]
    by (simp add: sn [OF ok] out_def)
  have a: "estBytes req \<le> MAX_BYTES \<longrightarrow>
      (let rng0 = seedRng (if request_seed (rq_requestId req) now = 0 then 1
                           else request_seed (rq_requestId req) now);
           n = nat (clamp_points (rq_numPoints req)) * nat (clamp_lines (rq_numLines req))
       in (\<exists>k. snd (onmessage rt req now rngState) = (xorshift32 ^^ k) rng0 \<and> 1 \<le> k \<and> k \<le> n \<and>
                ((\<exists>r. fst (onmessage rt req now rngState) = [SuccessResponse r]) \<longrightarrow> k = n)) \<and>
          (table_curve (select_curve rt (rq_curveType req)) \<longrightarrow>
             snd (onmessage rt req now rngState) = (xorshift32 ^^ n) rng0) \<and>
          (select_curve rt (rq_curveType req) = Inherited NotCallable \<longrightarrow>
             snd (onmessage rt req now rngState) = xorshift32 rng0))"
    unfolding Let_def using a1 a2 a3 unfolding rng0_def P_def L_def by blast
  have g: "estBytes req > MAX_BYTES \<longrightarrow> snd (onmessage rt req now rngState) = rngState"
    by (simp add: onmessage_too_large)
  have b: "xorshift32 s = (let s1 = s XOR push_bit 13 s; s2 = s1 XOR drop_bit 17 s1 in s2 XOR push_bit 5 s2)"
    by (simp add: xorshift32_def Let_def)
  have c: "random_js s = (real (unat (xorshift32 s)) / 2 ^ 32, xorshift32 s)"
    by (simp add: random_js_def Let_def)
  show ?thesis
    using seed_state_exact [of requestId now] seed_nonzero [of requestId now] a g b c
      random_js_range [of s] randomCentered_eq [of s] randomCentered_range [of s]
    by blast
qed

theorem C7_xorshift_seed_counterexample:
  "unat (seedRng (if request_seed 4194305 1700000000000 = 0 then 1 else request_seed 4194305 1700000000000))
      = 3663520176
   \<and> (4194305 * 2654435761 + 1700000000000) mod 2 ^ 32 = (3663520177 :: nat)"
proof -
  have 1: "fl53 (4194305 * 2654435761) = 11133513184541104"
    by (simp add: fl53_def Let_def compute_floorlog)
  have 2: "fl53 (11133513184541104 + 1700000000000) = 11135213184541104"
    by (simp add: fl53_def Let_def compute_floorlog)
  show ?thesis unfolding seed_state 1 2 Let_def by simp
qed

theorem C7_xorshift_seed_witness:
  "unat (seedRng (if request_seed 1 1700000000000 = 0 then 1 else request_seed 1 1700000000000)) = 1847386545
   \<and> snd (onmessage example_runtime \<lparr>rq_requestId = 3, rq_numPoints = 10, rq_numLines = 1, rq_curveType = ''linear'', rq_dataFormat = Float32\<rparr> 1700000000000 5)
       = (xorshift32 ^^ 10) (seedRng (if request_seed 3 1700000000000 = 0 then 1 else request_seed 3 1700000000000))
   \<and> snd (onmessage example_runtime \<lparr>rq_requestId = 3, rq_numPoints = 10, rq_numLines = 1, rq_curveType = ''__proto__'', rq_dataFormat = Float32\<rparr> 1700000000000 5)
       = 3574758887
   \<and> snd (onmessage example_runtime \<lparr>rq_requestId = 8, rq_numPoints = 10000000, rq_numLines = 1000, rq_curveType = ''linear'', rq_dataFormat = Float32\<rparr> 1700000000000 5)
       = 5"
proof -
  let ?big = "\<lparr>rq_requestId = 8, rq_numPoints = 10000000, rq_numLines = 1000, rq_curveType = ''linear'', rq_dataFormat = Float32\<rparr>"
  let ?small = "\<lparr>rq_requestId = 3, rq_numPoints = 10, rq_numLines = 1, rq_curveType = ''linear'', rq_dataFormat = Float32\<rparr>"
  let ?proto = "\<lparr>rq_requestId = 3, rq_numPoints = 10, rq_numLines = 1, rq_curveType = ''__proto__'', rq_dataFormat = Float32\<rparr>"
  have h: "(1::nat) * 2654435761 + 1700000000000 < 2 ^ 53" by simp
  have b: "estBytes ?big > MAX_BYTES" by (simp add: est_big32 MAX_BYTES_def)
  have s: "estBytes ?small \<le> MAX_BYTES" by (simp add: est_small MAX_BYTES_def)
  have sp: "estBytes ?proto \<le> MAX_BYTES" by (simp add: est_proto MAX_BYTES_def)
  have cp: "clamp_points 10 = 10" "clamp_lines 1 = 1"
    by (simp_all add: clamp_points_def clamp_lines_def MAX_POINTS_def MAX_LINES_def to_int32_small)
  from C7_xorshift_seed [of 1 1700000000000 ?small example_runtime 5 0] h
  have 1: "unat (seedRng (if request_seed 1 1700000000000 = 0 then 1 else request_seed 1 1700000000000)) = 1847386545"
    by simp
  have n: "nat 10 = 10" "nat 1 = 1" by simp_all
  have fs: "rq_requestId ?small = 3" "rq_numPoints ?small = 10" "rq_numLines ?small = 1"
    "rq_curveType ?small = ''linear''" "rq_dataFormat ?small = Float32" by simp_all
  have fp: "rq_requestId ?proto = 3" "rq_numPoints ?proto = 10" "rq_numLines ?proto = 1"
    "rq_curveType ?proto = ''__proto__''" "rq_dataFormat ?proto = Float32" by simp_all
  have tl: "table_curve (select_curve example_runtime ''linear'')" by (simp add: select_linear)
  note i = C7_xorshift_seed [of 0 1700000000000 ?small example_runtime 5 0, unfolded Let_def fs cp n]
  from i s tl
  have 2: "snd (onmessage example_runtime ?small 1700000000000 5)
       = (xorshift32 ^^ 10) (seedRng (if request_seed 3 1700000000000 = 0 then 1 else request_seed 3 1700000000000))"
    by simp
  note j = C7_xorshift_seed [of 0 1700000000000 ?proto example_runtime 5 0, unfolded Let_def fp cp n seed_3 xorshift32_seed_3]
  from j sp select_proto
  have 3: "snd (onmessage example_runtime ?proto 1700000000000 5) = 3574758887"
    by simp
  from C7_xorshift_seed [of 0 1700000000000 ?big example_runtime 5 0] b
  have 4: "snd (onmessage example_runtime ?big 1700000000000 5) = 5"
    by simp
  from 1 2 3 4 show ?thesis by blast
qed

section \<open>Properties of the worker pool\<close>

text \<open>The definitions that a concrete run unfolds.\<close>

lemmas pool_eval = constructor_def initialize_def startIdleCleanup_def createWorker_def
  generatePoints_def getAvailableWorker_def dispatchToWorker_def processQueue_def
  setMaxPoolSize_def removeWorker_def terminate_def settle_def clearTimeout_def
  worker_onmessage_def worker_onerror_def timeout_callback_def cleanupIdleWorkers_def run_def
  shrink_idle.simps Let_def

subsection \<open>The units are well formed\<close>

declare shrink_idle.simps [simp del]

lemma filter_neq_notin: "x \<notin> set xs \<Longrightarrow> filter (\<lambda>w. w \<noteq> x) xs = xs"
  by (induction xs) auto

lemma length_filter_neq_distinct:
  "distinct xs \<Longrightarrow> x \<in> set xs \<Longrightarrow> Suc (length (filter (\<lambda>w. w \<noteq> x) xs)) = length xs"
  by (induction xs) (auto simp: filter_neq_notin)

lemma find_idle_Some:
  "find (\<lambda>w. w \<notin> A) ws = Some w \<Longrightarrow> w \<in> set ws \<and> w \<notin> A"
  by (auto simp: find_Some_iff)

lemma find_idle_None: "find (\<lambda>w. w \<notin> A) ws = None \<Longrightarrow> set ws \<subseteq> A"
  by (auto simp: find_None_iff)

lemma units_ok_removeWorker:
  "units_ok p \<Longrightarrow> w \<notin> activeWorkers p \<Longrightarrow> units_ok (removeWorker w p)"
  by (auto simp: units_ok_def removeWorker_def)

lemma units_ok_createWorker: "units_ok p \<Longrightarrow> units_ok (snd (createWorker now p))"
  by (auto simp: units_ok_def createWorker_def Let_def less_Suc_eq)

lemma createWorker_cases:
  "createWorker now p = (r, p') \<Longrightarrow>
     (r = None \<and> p' = p \<and> maxPoolSize p \<le> length (workers p)) \<or>
     (r = Some (nextWorker p) \<and> length (workers p) < maxPoolSize p \<and>
      p' = p\<lparr>nextWorker := Suc (nextWorker p), workers := workers p @ [nextWorker p],
            workerLastUsed := (workerLastUsed p)(nextWorker p \<mapsto> now)\<rparr>)"
  by (auto simp: createWorker_def Let_def split: if_splits)

lemma getAvailableWorker_cases:
  assumes "getAvailableWorker now p = (r, p')"
  shows "(r = None \<and> p' = p \<and> set (workers p) \<subseteq> activeWorkers p \<and> maxPoolSize p \<le> length (workers p)) \<or>
     (\<exists>w. r = Some w \<and> p' = p \<and> w \<in> set (workers p) \<and> w \<notin> activeWorkers p) \<or>
     (r = Some (nextWorker p) \<and> length (workers p) < maxPoolSize p \<and> set (workers p) \<subseteq> activeWorkers p \<and>
      p' = p\<lparr>nextWorker := Suc (nextWorker p), workers := workers p @ [nextWorker p],
            workerLastUsed := (workerLastUsed p)(nextWorker p \<mapsto> now)\<rparr>)"
proof (cases "find (\<lambda>w. w \<notin> activeWorkers p) (workers p)")
  case None
  note sub = find_idle_None [OF None]
  show ?thesis
  proof (cases "length (workers p) < maxPoolSize p")
    case True
    with assms None sub show ?thesis
      by (simp add: getAvailableWorker_def createWorker_def Let_def)
  next
    case False
    with assms None sub show ?thesis
      by (simp add: getAvailableWorker_def)
  qed
next
  case (Some w)
  note i = find_idle_Some [OF Some]
  with assms Some show ?thesis by (auto simp: getAvailableWorker_def)
qed

lemma units_ok_getAvailableWorker:
  assumes "units_ok p" "getAvailableWorker now p = (r, p')"
  shows "units_ok p' \<and> (\<forall>w. r = Some w \<longrightarrow> w \<in> set (workers p') \<and> w \<notin> activeWorkers p')"
  using getAvailableWorker_cases [OF assms(2)] assms(1)
  by (auto simp: units_ok_def less_Suc_eq)

lemma units_ok_dispatchToWorker:
  "units_ok p \<Longrightarrow> w \<in> set (workers p) \<Longrightarrow> units_ok (dispatchToWorker now w req p)"
  by (auto simp: units_ok_def dispatchToWorker_def Let_def)

lemma units_ok_queue_update [simp]: "units_ok (p\<lparr>queue := q\<rparr>) = units_ok p"
  by (simp add: units_ok_def)

lemma units_ok_settle [simp]: "units_ok (settle r out p) = units_ok p"
  by (simp add: units_ok_def settle_def)

lemma units_ok_processQueue: "units_ok p \<Longrightarrow> units_ok (processQueue now p)"
proof -
  assume a: "units_ok p"
  show ?thesis
  proof (cases "queue p")
    case Nil
    then show ?thesis using a by (simp add: processQueue_def)
  next
    case (Cons request rest)
    obtain r p' where g: "getAvailableWorker now p = (r, p')" by (cases "getAvailableWorker now p")
    from units_ok_getAvailableWorker [OF a g] show ?thesis
      using Cons g by (cases r) (auto simp: processQueue_def intro!: units_ok_dispatchToWorker)
  qed
qed

lemma units_ok_generatePoints: "units_ok p \<Longrightarrow> units_ok (generatePoints n l c f now p)"
proof -
  assume a: "units_ok p"
  let ?p1 = "p\<lparr>requestIdCounter := Suc (requestIdCounter p)\<rparr>"
  have a1: "units_ok ?p1" using a by (simp add: units_ok_def)
  obtain r p' where g: "getAvailableWorker now ?p1 = (r, p')" by (cases "getAvailableWorker now ?p1")
  from units_ok_getAvailableWorker [OF a1 g] show ?thesis
    using g by (cases r) (auto simp: generatePoints_def Let_def intro!: units_ok_dispatchToWorker)
qed


lemma units_ok_frame:
  "units_ok p \<Longrightarrow> workers p' = workers p \<Longrightarrow> nextWorker p' = nextWorker p \<Longrightarrow>
   activeWorkers p' \<subseteq> activeWorkers p \<Longrightarrow> minWorkers p' = minWorkers p \<Longrightarrow>
   maxPoolSize p' = maxPoolSize p \<Longrightarrow> units_ok p'"
  by (auto simp: units_ok_def)

lemma units_ok_worker_onmessage: "units_ok p \<Longrightarrow> units_ok (worker_onmessage w d now p)"
  unfolding worker_onmessage_def Let_def
  by (auto split: option.splits WorkerResponse.splits intro!: units_ok_processQueue
      elim!: units_ok_frame simp: settle_def)

lemma units_ok_drop_worker:
  "units_ok p \<Longrightarrow>
   units_ok (p\<lparr>activeWorkers := activeWorkers p - {w}, workerToRequestId := m, workerLastUsed := l,
              workers := filter (\<lambda>x. x \<noteq> w) (workers p), terminatedWorkers := t\<rparr>)"
  by (auto simp: units_ok_def)

lemma units_ok_refill:
  "units_ok p \<Longrightarrow> units_ok (if length (workers p) < minWorkers p then snd (createWorker now p) else p)"
  by (simp add: units_ok_createWorker)

lemma units_ok_worker_onerror: "units_ok p \<Longrightarrow> units_ok (worker_onerror w now p)"
proof -
  assume a: "units_ok p"
  define p1 where "p1 = (case workerToRequestId p w of
                  None \<Rightarrow> p
                | Some requestId \<Rightarrow>
                    (case map_of (pendingRequests p) requestId of
                       None \<Rightarrow> p
                     | Some entry \<Rightarrow>
                         settle (p_promise entry) (Rejected ''Worker crashed while processing request'')
                           (p\<lparr>pendingRequests := AList.delete requestId (pendingRequests p),
                              timers := clearTimeout (p_timeoutId entry) (timers p)\<rparr>)))"
  have "units_ok p1" using a unfolding p1_def
    by (auto split: option.splits elim!: units_ok_frame)
  then show ?thesis
    unfolding worker_onerror_def Let_def p1_def [symmetric]
    by (intro units_ok_processQueue units_ok_refill units_ok_drop_worker)
qed

lemma units_ok_timeout_callback: "units_ok p \<Longrightarrow> units_ok (timeout_callback c now p)"
proof -
  assume a: "units_ok p"
  let ?p1 = "p\<lparr>pendingRequests := AList.delete (t_requestId c) (pendingRequests p),
                   activeWorkers := activeWorkers p - {t_worker c},
                   workerToRequestId := (workerToRequestId p)(t_worker c := None)\<rparr>"
  have 1: "units_ok ?p1" using a by (auto elim!: units_ok_frame)
  have 2: "units_ok (removeWorker (t_worker c) (settle (t_promise c) (Rejected ''Worker request timed out'') ?p1))"
  proof (rule units_ok_removeWorker)
    show "units_ok (settle (t_promise c) (Rejected ''Worker request timed out'') ?p1)"
      using 1 by simp
    show "t_worker c \<notin> activeWorkers (settle (t_promise c) (Rejected ''Worker request timed out'') ?p1)"
      by (simp add: settle_def)
  qed
  show ?thesis
    unfolding timeout_callback_def Let_def
    using a 2 by (auto intro!: units_ok_processQueue units_ok_createWorker simp del: units_ok_settle)
qed

lemma shrink_idle_units:
  "distinct (workers p) \<and> (\<forall>w\<in>set (workers p). w < nextWorker p) \<and> activeWorkers p \<subseteq> set (workers p)
   \<Longrightarrow> distinct (workers (shrink_idle p)) \<and> (\<forall>w\<in>set (workers (shrink_idle p)). w < nextWorker (shrink_idle p))
       \<and> activeWorkers (shrink_idle p) \<subseteq> set (workers (shrink_idle p))"
proof (induction p rule: shrink_idle.induct)
  case (1 p)
  show ?case
  proof (cases "length (workers p) > maxPoolSize p")
    case False
    then show ?thesis using "1.prems" by (simp add: shrink_idle.simps [of p])
  next
    case True
    show ?thesis
    proof (cases "find (\<lambda>w. w \<notin> activeWorkers p) (workers p)")
      case None
      then show ?thesis using "1.prems" True by (simp add: shrink_idle.simps [of p])
    next
      case (Some idle)
      from find_idle_Some [OF Some] have "idle \<notin> activeWorkers p" by simp
      then have "distinct (workers (removeWorker idle p)) \<and>
          (\<forall>w\<in>set (workers (removeWorker idle p)). w < nextWorker (removeWorker idle p)) \<and>
          activeWorkers (removeWorker idle p) \<subseteq> set (workers (removeWorker idle p))"
        using "1.prems" by (auto simp: removeWorker_def)
      from "1.IH" [OF True Some this] show ?thesis using True Some by (simp add: shrink_idle.simps [of p])
    qed
  qed
qed

lemma shrink_idle_frame_conj:
  "maxPoolSize (shrink_idle p) = maxPoolSize p \<and> minWorkers (shrink_idle p) = minWorkers p \<and>
   activeWorkers (shrink_idle p) = activeWorkers p \<and> queue (shrink_idle p) = queue p \<and>
   pendingRequests (shrink_idle p) = pendingRequests p \<and>
   requestIdCounter (shrink_idle p) = requestIdCounter p \<and> settled (shrink_idle p) = settled p \<and>
   timers (shrink_idle p) = timers p \<and> posted (shrink_idle p) = posted p \<and>
   nextWorker (shrink_idle p) = nextWorker p \<and> nextTimer (shrink_idle p) = nextTimer p \<and>
   cleanupInterval (shrink_idle p) = cleanupInterval p"
proof (induction p rule: shrink_idle.induct)
  case (1 p)
  show ?case
  proof (cases "length (workers p) > maxPoolSize p")
    case False
    then show ?thesis by (simp add: shrink_idle.simps [of p])
  next
    case True
    show ?thesis
    proof (cases "find (\<lambda>w. w \<notin> activeWorkers p) (workers p)")
      case None
      then show ?thesis using True by (simp add: shrink_idle.simps [of p])
    next
      case (Some idle)
      from "1.IH" [OF True Some] show ?thesis using True Some
        by (simp add: shrink_idle.simps [of p] removeWorker_def)
    qed
  qed
qed

lemma shrink_idle_frame:
  "maxPoolSize (shrink_idle p) = maxPoolSize p"
  "minWorkers (shrink_idle p) = minWorkers p"
  "activeWorkers (shrink_idle p) = activeWorkers p"
  "queue (shrink_idle p) = queue p"
  "pendingRequests (shrink_idle p) = pendingRequests p"
  "requestIdCounter (shrink_idle p) = requestIdCounter p"
  "settled (shrink_idle p) = settled p"
  "timers (shrink_idle p) = timers p"
  "posted (shrink_idle p) = posted p"
  "nextWorker (shrink_idle p) = nextWorker p"
  "nextTimer (shrink_idle p) = nextTimer p"
  "cleanupInterval (shrink_idle p) = cleanupInterval p"
  using shrink_idle_frame_conj [of p] by simp_all

lemma setMaxPoolSize_eq:
  "setMaxPoolSize n p =
     (shrink_idle (p\<lparr>maxPoolSize := nat (max 1 (if n = 0 then 1 else n))\<rparr>))
       \<lparr>minWorkers := min (minWorkers p) (nat (max 1 (if n = 0 then 1 else n)))\<rparr>"
proof -
  have "(shrink_idle (p\<lparr>maxPoolSize := x\<rparr>))
          \<lparr>minWorkers := min (minWorkers (p\<lparr>maxPoolSize := x\<rparr>)) (maxPoolSize (p\<lparr>maxPoolSize := x\<rparr>))\<rparr>
        = (shrink_idle (p\<lparr>maxPoolSize := x\<rparr>))\<lparr>minWorkers := min (minWorkers p) x\<rparr>" for x
    by simp
  then show ?thesis unfolding setMaxPoolSize_def Let_def shrink_idle_frame .
qed

lemma units_ok_setMaxPoolSize: "units_ok p \<Longrightarrow> units_ok (setMaxPoolSize n p)"
proof -
  assume a: "units_ok p"
  define nxt where "nxt = nat (max 1 (if n = 0 then 1 else n))"
  let ?p0 = "p\<lparr>maxPoolSize := nxt\<rparr>"
  have "distinct (workers ?p0) \<and> (\<forall>w\<in>set (workers ?p0). w < nextWorker ?p0) \<and> activeWorkers ?p0 \<subseteq> set (workers ?p0)"
    using a by (simp add: units_ok_def)
  from shrink_idle_units [OF this] show ?thesis
    unfolding setMaxPoolSize_eq nxt_def [symmetric]
    by (simp add: units_ok_def shrink_idle_frame)
qed

lemma collect_idle_eq:
  "collect_idle now p ws =
     (if length (workers p) \<le> minWorkers p then []
      else filter (\<lambda>w. w \<notin> activeWorkers p \<and> idle_time now p w > idleTimeout) ws)"
  by (induction ws) (auto simp: idle_time_def Let_def)

lemma units_ok_remove_collected:
  "units_ok p \<Longrightarrow> set cs \<inter> activeWorkers p = {} \<Longrightarrow> units_ok (remove_collected cs p)"
proof (induction cs arbitrary: p)
  case Nil
  then show ?case by simp
next
  case (Cons c cs)
  have 1: "units_ok (removeWorker c p)" using Cons.prems by (intro units_ok_removeWorker) auto
  have 2: "set cs \<inter> activeWorkers (removeWorker c p) = {}" using Cons.prems by (auto simp: removeWorker_def)
  from Cons.IH [OF 1 2] Cons.prems(1) show ?case by simp
qed

lemma units_ok_cleanupIdleWorkers: "units_ok p \<Longrightarrow> units_ok (cleanupIdleWorkers now p)"
  unfolding cleanupIdleWorkers_def
  by (rule units_ok_remove_collected) (auto simp: collect_idle_eq)

lemma units_ok_terminate: "units_ok p \<Longrightarrow> units_ok (terminate p)"
  by (simp add: units_ok_def terminate_def)

lemma units_ok_step: "units_ok p \<Longrightarrow> units_ok (step p ev)"
proof (cases ev)
  case (Pair now e)
  assume a: "units_ok p"
  have t: "units_ok (p\<lparr>timers := ts\<rparr>)" for ts using a by (simp add: units_ok_def)
  show ?thesis unfolding Pair
    by (cases e)
      (auto simp: a t units_ok_generatePoints units_ok_setMaxPoolSize units_ok_worker_onmessage
        worker_onmessageerror_def units_ok_worker_onerror units_ok_timeout_callback
        units_ok_cleanupIdleWorkers units_ok_terminate split: option.splits)
qed

lemma units_ok_constructor: "units_ok (constructor m now)"
  by (simp add: constructor_def initialize_def startIdleCleanup_def createWorker_def units_ok_def Let_def)

lemma units_ok_run_from: "units_ok p \<Longrightarrow> units_ok (run p evs)"
  unfolding run_def by (induction evs arbitrary: p) (simp_all add: units_ok_step)

lemma units_ok_run: "units_ok (run (constructor m now) evs)"
  by (rule units_ok_run_from [OF units_ok_constructor])


subsection \<open>Floor and capacity\<close>

lemma grows_within_refl: "grows_within p p"
  by (simp add: grows_within_def)

lemma grows_within_trans: "grows_within p q \<Longrightarrow> grows_within q r \<Longrightarrow> grows_within p r"
  by (auto simp: grows_within_def)

lemma grows_within_same:
  "workers p' = workers p \<Longrightarrow> maxPoolSize p' = maxPoolSize p \<Longrightarrow> minWorkers p' = minWorkers p
     \<Longrightarrow> grows_within p p'"
  by (simp add: grows_within_def)

lemma grows_within_createWorker: "grows_within p (snd (createWorker now p))"
  by (auto simp: grows_within_def createWorker_def Let_def)

lemma grows_within_getAvailableWorker: "getAvailableWorker now p = (r, p') \<Longrightarrow> grows_within p p'"
  by (drule getAvailableWorker_cases) (auto simp: grows_within_def)

lemma grows_within_dispatchToWorker: "grows_within p (dispatchToWorker now w req p)"
  by (simp add: grows_within_def dispatchToWorker_def Let_def)

lemma grows_within_processQueue: "grows_within p (processQueue now p)"
proof (cases "queue p")
  case Nil
  then show ?thesis by (simp add: processQueue_def grows_within_refl)
next
  case (Cons request rest)
  obtain r p' where g: "getAvailableWorker now p = (r, p')" by (cases "getAvailableWorker now p")
  note a = grows_within_getAvailableWorker [OF g]
  show ?thesis
  proof (cases r)
    case None
    then show ?thesis using a g Cons by (simp add: processQueue_def)
  next
    case (Some w)
    have "grows_within p' (dispatchToWorker now w request (p'\<lparr>queue := rest\<rparr>))"
      by (simp add: grows_within_def dispatchToWorker_def Let_def)
    with a show ?thesis using g Cons Some by (auto simp: processQueue_def intro: grows_within_trans)
  qed
qed

lemma grows_within_generatePoints: "grows_within p (generatePoints n l c f now p)"
proof -
  let ?p1 = "p\<lparr>requestIdCounter := Suc (requestIdCounter p)\<rparr>"
  obtain r p' where g: "getAvailableWorker now ?p1 = (r, p')" by (cases "getAvailableWorker now ?p1")
  note a = grows_within_getAvailableWorker [OF g]
  then have b: "grows_within p p'" by (simp add: grows_within_def)
  show ?thesis
  proof (cases r)
    case None
    have "grows_within p' (p'\<lparr>queue := queue p' @ [x]\<rparr>)" for x by (simp add: grows_within_def)
    with b show ?thesis using g None by (auto simp: generatePoints_def Let_def intro: grows_within_trans)
  next
    case (Some w)
    with b show ?thesis using g grows_within_dispatchToWorker
      by (auto simp: generatePoints_def Let_def intro: grows_within_trans)
  qed
qed

lemma grows_within_worker_onmessage: "grows_within p (worker_onmessage w d now p)"
  unfolding worker_onmessage_def Let_def
  by (auto split: option.splits WorkerResponse.splits simp: settle_def
      intro!: grows_within_trans [OF _ grows_within_processQueue] grows_within_same)

text \<open>A unit is dropped, a replacement is made when the pool is below its floor.\<close>

lemma refill_floor:
  assumes "minWorkers q \<le> maxPoolSize q" "minWorkers q \<le> Suc (length (workers q))"
  shows "minWorkers q \<le> length (workers (if length (workers q) < minWorkers q then snd (createWorker now q) else q))"
  using assms by (auto simp: createWorker_def Let_def)

lemma refill_frame:
  "maxPoolSize (if length (workers q) < minWorkers q then snd (createWorker now q) else q) = maxPoolSize q \<and>
   minWorkers (if length (workers q) < minWorkers q then snd (createWorker now q) else q) = minWorkers q"
  by (auto simp: createWorker_def Let_def)

lemma refill_bound:
  assumes "minWorkers q \<le> maxPoolSize q"
  shows "length (workers (if length (workers q) < minWorkers q then snd (createWorker now q) else q))
           \<le> max (length (workers q)) (maxPoolSize q)"
  using assms by (auto simp: createWorker_def Let_def)

lemma worker_onerror_shape:
  "\<exists>q. worker_onerror w now p
         = processQueue now (if length (workers q) < minWorkers q then snd (createWorker now q) else q)
       \<and> workers q = filter (\<lambda>x. x \<noteq> w) (workers p) \<and> maxPoolSize q = maxPoolSize p
       \<and> minWorkers q = minWorkers p"
  unfolding worker_onerror_def Let_def
  by (rule exI, rule conjI, rule refl) (auto split: option.splits simp: settle_def)

lemma timeout_callback_shape:
  "timeout_callback c now p = p \<or>
   (\<exists>q. timeout_callback c now p
         = processQueue now (if length (workers q) < minWorkers q then snd (createWorker now q) else q)
       \<and> workers q = filter (\<lambda>x. x \<noteq> t_worker c) (workers p) \<and> maxPoolSize q = maxPoolSize p
       \<and> minWorkers q = minWorkers p)"
proof (cases "map_of (pendingRequests p) (t_requestId c) = None")
  case True
  then show ?thesis by (simp add: timeout_callback_def)
next
  case False
  show ?thesis
    apply (rule disjI2)
    unfolding timeout_callback_def Let_def using False
    apply (simp only: if_False)
    apply (rule exI, rule conjI, rule refl)
    apply (simp add: settle_def removeWorker_def)
    done
qed

lemma drop_refill_queue:
  fixes now :: int
  assumes sh: "workers q = filter (\<lambda>x. x \<noteq> w) (workers p)" "maxPoolSize q = maxPoolSize p"
      "minWorkers q = minWorkers p"
  defines "p' \<equiv> processQueue now (if length (workers q) < minWorkers q then snd (createWorker now q) else q)"
  shows "maxPoolSize p' = maxPoolSize p \<and> minWorkers p' = minWorkers p \<and>
         (units_ok p \<longrightarrow> length (workers p') \<le> max (length (workers p)) (maxPoolSize p)) \<and>
         (units_ok p \<longrightarrow> minWorkers p \<le> length (workers p) \<longrightarrow> minWorkers p \<le> length (workers p'))"
proof -
  define r where "r = (if length (workers q) < minWorkers q then snd (createWorker now q) else q)"
  have g: "grows_within r p'" unfolding p'_def r_def by (rule grows_within_processQueue)
  have f: "maxPoolSize r = maxPoolSize p" "minWorkers r = minWorkers p"
    using refill_frame [of q now] sh unfolding r_def by simp_all
  have le: "length (workers q) \<le> length (workers p)" using sh by simp
  have 1: "maxPoolSize p' = maxPoolSize p \<and> minWorkers p' = minWorkers p"
    using g f by (simp add: grows_within_def)
  have 2: "length (workers p') \<le> max (length (workers p)) (maxPoolSize p)" if u: "units_ok p"
  proof -
    have mm: "minWorkers q \<le> maxPoolSize q" using u sh by (simp add: units_ok_def)
    have "length (workers r) \<le> max (length (workers q)) (maxPoolSize q)"
      unfolding r_def by (rule refill_bound [OF mm])
    also have "max (length (workers q)) (maxPoolSize q) \<le> max (length (workers p)) (maxPoolSize p)"
      unfolding sh(2) by (rule max.mono [OF le order_refl])
    finally have "length (workers r) \<le> max (length (workers p)) (maxPoolSize p)" .
    with g f show ?thesis by (auto simp: grows_within_def)
  qed
  have 3: "minWorkers p \<le> length (workers p')" if u: "units_ok p" and fl: "minWorkers p \<le> length (workers p)"
  proof -
    have mm: "minWorkers q \<le> maxPoolSize q" using u sh by (simp add: units_ok_def)
    have "length (workers p) \<le> Suc (length (workers q))"
    proof (cases "w \<in> set (workers p)")
      case True
      with u have "Suc (length (filter (\<lambda>x. x \<noteq> w) (workers p))) = length (workers p)"
        by (intro length_filter_neq_distinct) (simp_all add: units_ok_def)
      then show ?thesis using sh by simp
    next
      case False
      then show ?thesis using sh by (simp add: filter_neq_notin)
    qed
    with fl sh have "minWorkers q \<le> Suc (length (workers q))" by simp
    from refill_floor [OF mm this, of now] have "minWorkers q \<le> length (workers r)" unfolding r_def .
    with g sh show ?thesis by (simp add: grows_within_def)
  qed
  from 1 2 3 show ?thesis by blast
qed

lemma shrink_idle_floor:
  "distinct (workers p) \<Longrightarrow> m \<le> maxPoolSize p \<Longrightarrow> m \<le> length (workers p)
     \<Longrightarrow> m \<le> length (workers (shrink_idle p))"
proof (induction p rule: shrink_idle.induct)
  case (1 p)
  show ?case
  proof (cases "length (workers p) > maxPoolSize p")
    case False
    then show ?thesis using "1.prems" by (simp add: shrink_idle.simps [of p])
  next
    case True
    show ?thesis
    proof (cases "find (\<lambda>w. w \<notin> activeWorkers p) (workers p)")
      case None
      then show ?thesis using "1.prems" True by (simp add: shrink_idle.simps [of p])
    next
      case (Some idle)
      from find_idle_Some [OF Some] have i: "idle \<in> set (workers p)" by simp
      have l: "Suc (length (workers (removeWorker idle p))) = length (workers p)"
        using length_filter_neq_distinct [OF "1.prems"(1) i] by (simp add: removeWorker_def)
      have "m \<le> length (workers (shrink_idle (removeWorker idle p)))"
      proof (rule "1.IH" [OF True Some])
        show "distinct (workers (removeWorker idle p))" using "1.prems" by (simp add: removeWorker_def)
        show "m \<le> maxPoolSize (removeWorker idle p)" using "1.prems" by (simp add: removeWorker_def)
        show "m \<le> length (workers (removeWorker idle p))" using l True "1.prems"(2) by linarith
      qed
      then show ?thesis using True Some by (simp add: shrink_idle.simps [of p])
    qed
  qed
qed

lemma shrink_idle_length: "length (workers (shrink_idle p)) \<le> length (workers p)"
proof (induction p rule: shrink_idle.induct)
  case (1 p)
  show ?case
  proof (cases "length (workers p) > maxPoolSize p")
    case False
    then show ?thesis by (simp add: shrink_idle.simps [of p])
  next
    case True
    show ?thesis
    proof (cases "find (\<lambda>w. w \<notin> activeWorkers p) (workers p)")
      case None
      then show ?thesis using True by (simp add: shrink_idle.simps [of p])
    next
      case (Some idle)
      have "length (workers (removeWorker idle p)) \<le> length (workers p)" by (simp add: removeWorker_def)
      with "1.IH" [OF True Some] show ?thesis using True Some
        by (simp add: shrink_idle.simps [of p])
    qed
  qed
qed

lemma remove_collected_frame:
  "minWorkers (remove_collected cs p) = minWorkers p \<and> maxPoolSize (remove_collected cs p) = maxPoolSize p
   \<and> length (workers (remove_collected cs p)) \<le> length (workers p)"
proof (induction cs arbitrary: p)
  case Nil
  then show ?case by simp
next
  case (Cons c cs)
  have a: "length (workers (removeWorker c p)) \<le> length (workers p)" by (simp add: removeWorker_def)
  have b: "minWorkers (removeWorker c p) = minWorkers p" "maxPoolSize (removeWorker c p) = maxPoolSize p"
    by (simp_all add: removeWorker_def)
  from Cons [of "removeWorker c p"] a b
  have "length (workers (remove_collected cs (removeWorker c p))) \<le> length (workers p)"
    "minWorkers (remove_collected cs (removeWorker c p)) = minWorkers p"
    "maxPoolSize (remove_collected cs (removeWorker c p)) = maxPoolSize p"
    by linarith+
  then show ?case by simp
qed

lemma remove_collected_floor:
  "distinct (workers p) \<Longrightarrow> minWorkers p \<le> length (workers p)
     \<Longrightarrow> minWorkers p \<le> length (workers (remove_collected cs p))"
proof (induction cs arbitrary: p)
  case Nil
  then show ?case by simp
next
  case (Cons c cs)
  show ?case
  proof (cases "length (workers p) \<le> minWorkers p")
    case True
    then show ?thesis using Cons.prems by simp
  next
    case False
    have d: "distinct (workers (removeWorker c p))" using Cons.prems by (simp add: removeWorker_def)
    have "length (workers p) \<le> Suc (length (workers (removeWorker c p)))"
    proof (cases "c \<in> set (workers p)")
      case True
      from length_filter_neq_distinct [OF Cons.prems(1) True] show ?thesis by (simp add: removeWorker_def)
    next
      case False
      then show ?thesis by (simp add: removeWorker_def filter_neq_notin)
    qed
    with False have m: "minWorkers (removeWorker c p) \<le> length (workers (removeWorker c p))"
      by (simp add: removeWorker_def)
    from Cons.IH [OF d m] False show ?thesis by (simp add: removeWorker_def)
  qed
qed

lemma floor_step:
  assumes u: "units_ok p" and fl: "minWorkers p \<le> length (workers p)" and nt: "snd ev \<noteq> Terminate"
  shows "minWorkers (step p ev) \<le> length (workers (step p ev))"
proof (cases ev)
  case (Pair now e)
  show ?thesis
  proof (cases e)
    case (GeneratePoints n l c f)
    from grows_within_generatePoints [of p n l c f now] fl show ?thesis
      unfolding Pair GeneratePoints by (simp add: grows_within_def)
  next
    case (SetMaxPoolSize n)
    define nxt where "nxt = nat (max 1 (if n = 0 then 1 else n))"
    let ?p0 = "p\<lparr>maxPoolSize := nxt\<rparr>"
    have "min (minWorkers p) nxt \<le> length (workers (shrink_idle ?p0))"
      by (rule shrink_idle_floor) (use u fl in \<open>simp_all add: units_ok_def\<close>)
    then show ?thesis unfolding Pair SetMaxPoolSize step.simps setMaxPoolSize_eq nxt_def [symmetric]
      by simp
  next
    case (Message w d)
    from grows_within_worker_onmessage [of p w d now] fl show ?thesis
      unfolding Pair Message by (simp add: grows_within_def)
  next
    case (MessageError w)
    obtain q where q: "worker_onerror w now p
         = processQueue now (if length (workers q) < minWorkers q then snd (createWorker now q) else q)"
       "workers q = filter (\<lambda>x. x \<noteq> w) (workers p)" "maxPoolSize q = maxPoolSize p"
       "minWorkers q = minWorkers p"
      using worker_onerror_shape [of w now p] by blast
    from drop_refill_queue [OF q(2-4), of now] u fl show ?thesis
      unfolding Pair MessageError by (simp add: worker_onmessageerror_def q(1))
  next
    case (Crash w)
    obtain q where q: "worker_onerror w now p
         = processQueue now (if length (workers q) < minWorkers q then snd (createWorker now q) else q)"
       "workers q = filter (\<lambda>x. x \<noteq> w) (workers p)" "maxPoolSize q = maxPoolSize p"
       "minWorkers q = minWorkers p"
      using worker_onerror_shape [of w now p] by blast
    from drop_refill_queue [OF q(2-4), of now] u fl show ?thesis
      unfolding Pair Crash by (simp add: q(1))
  next
    case (Timeout t)
    show ?thesis
    proof (cases "timers p t")
      case None
      then show ?thesis unfolding Pair Timeout using fl by simp
    next
      case (Some c)
      let ?p0 = "p\<lparr>timers := (timers p)(t := None)\<rparr>"
      have u0: "units_ok ?p0" using u by (simp add: units_ok_def)
      have fl0: "minWorkers ?p0 \<le> length (workers ?p0)" using fl by simp
      have "minWorkers (timeout_callback c now ?p0) \<le> length (workers (timeout_callback c now ?p0))"
        using timeout_callback_shape [of c now ?p0]
      proof
        assume "timeout_callback c now ?p0 = ?p0"
        then show ?thesis using fl by simp
      next
        assume "\<exists>q. timeout_callback c now ?p0
         = processQueue now (if length (workers q) < minWorkers q then snd (createWorker now q) else q)
         \<and> workers q = filter (\<lambda>x. x \<noteq> t_worker c) (workers ?p0) \<and> maxPoolSize q = maxPoolSize ?p0
         \<and> minWorkers q = minWorkers ?p0"
        then obtain q where q: "timeout_callback c now ?p0
         = processQueue now (if length (workers q) < minWorkers q then snd (createWorker now q) else q)"
         "workers q = filter (\<lambda>x. x \<noteq> t_worker c) (workers ?p0)" "maxPoolSize q = maxPoolSize ?p0"
         "minWorkers q = minWorkers ?p0" by blast
        from drop_refill_queue [OF q(2-4), of now] u0 fl0 show ?thesis by (simp add: q(1))
      qed
      then show ?thesis unfolding Pair Timeout using Some fl by simp
    qed
  next
    case CleanupTick
    have "minWorkers p \<le> length (workers (remove_collected (collect_idle now p (workers p)) p))"
      by (rule remove_collected_floor) (use u fl in \<open>simp_all add: units_ok_def\<close>)
    then show ?thesis unfolding Pair CleanupTick using fl
      by (simp add: cleanupIdleWorkers_def remove_collected_frame)
  next
    case Terminate
    with nt Pair show ?thesis by simp
  qed
qed

subsection \<open>Capacity over a run\<close>

lemma shrink_idle_post:
  "length (workers (shrink_idle p)) \<le> maxPoolSize p \<or> set (workers (shrink_idle p)) \<subseteq> activeWorkers p"
proof (induction p rule: shrink_idle.induct)
  case (1 p)
  show ?case
  proof (cases "length (workers p) > maxPoolSize p")
    case False
    then show ?thesis by (simp add: shrink_idle.simps [of p])
  next
    case True
    show ?thesis
    proof (cases "find (\<lambda>w. w \<notin> activeWorkers p) (workers p)")
      case None
      from find_idle_None [OF None] show ?thesis using True None by (simp add: shrink_idle.simps [of p])
    next
      case (Some idle)
      from "1.IH" [OF True Some] show ?thesis using True Some
        by (simp add: shrink_idle.simps [of p] removeWorker_def)
    qed
  qed
qed

lemma setMaxPoolSize_post:
  "length (workers (setMaxPoolSize n p)) \<le> maxPoolSize (setMaxPoolSize n p)
     \<or> set (workers (setMaxPoolSize n p)) \<subseteq> activeWorkers (setMaxPoolSize n p)"
proof -
  define nxt where "nxt = nat (max 1 (if n = 0 then 1 else n))"
  from shrink_idle_post [of "p\<lparr>maxPoolSize := nxt\<rparr>"] show ?thesis
    unfolding setMaxPoolSize_eq nxt_def [symmetric] by (simp add: shrink_idle_frame)
qed

lemma setMaxPoolSize_length: "length (workers (setMaxPoolSize n p)) \<le> length (workers p)"
proof -
  define nxt where "nxt = nat (max 1 (if n = 0 then 1 else n))"
  from shrink_idle_length [of "p\<lparr>maxPoolSize := nxt\<rparr>"] show ?thesis
    unfolding setMaxPoolSize_eq nxt_def [symmetric] by simp
qed

lemma step_bound:
  assumes u: "units_ok p"
  shows "length (workers (step p ev)) \<le> max (length (workers p)) (maxPoolSize (step p ev))"
proof (cases ev)
  case (Pair now e)
  show ?thesis
  proof (cases e)
    case (GeneratePoints n l c f)
    from grows_within_generatePoints [of p n l c f now] show ?thesis
      unfolding Pair GeneratePoints by (simp add: grows_within_def)
  next
    case (SetMaxPoolSize n)
    from setMaxPoolSize_length [of n p] show ?thesis unfolding Pair SetMaxPoolSize by simp
  next
    case (Message w d)
    from grows_within_worker_onmessage [of p w d now] show ?thesis
      unfolding Pair Message by (simp add: grows_within_def)
  next
    case (MessageError w)
    obtain q where q: "worker_onerror w now p
         = processQueue now (if length (workers q) < minWorkers q then snd (createWorker now q) else q)"
       "workers q = filter (\<lambda>x. x \<noteq> w) (workers p)" "maxPoolSize q = maxPoolSize p"
       "minWorkers q = minWorkers p"
      using worker_onerror_shape [of w now p] by blast
    from drop_refill_queue [OF q(2-4), of now] u show ?thesis
      unfolding Pair MessageError by (simp add: worker_onmessageerror_def q(1))
  next
    case (Crash w)
    obtain q where q: "worker_onerror w now p
         = processQueue now (if length (workers q) < minWorkers q then snd (createWorker now q) else q)"
       "workers q = filter (\<lambda>x. x \<noteq> w) (workers p)" "maxPoolSize q = maxPoolSize p"
       "minWorkers q = minWorkers p"
      using worker_onerror_shape [of w now p] by blast
    from drop_refill_queue [OF q(2-4), of now] u show ?thesis
      unfolding Pair Crash by (simp add: q(1))
  next
    case (Timeout t)
    show ?thesis
    proof (cases "timers p t")
      case None
      then show ?thesis unfolding Pair Timeout by simp
    next
      case (Some c)
      let ?p0 = "p\<lparr>timers := (timers p)(t := None)\<rparr>"
      have u0: "units_ok ?p0" using u by (simp add: units_ok_def)
      have "length (workers (timeout_callback c now ?p0))
              \<le> max (length (workers p)) (maxPoolSize (timeout_callback c now ?p0))"
        using timeout_callback_shape [of c now ?p0]
      proof
        assume "timeout_callback c now ?p0 = ?p0"
        then show ?thesis by simp
      next
        assume "\<exists>q. timeout_callback c now ?p0
         = processQueue now (if length (workers q) < minWorkers q then snd (createWorker now q) else q)
         \<and> workers q = filter (\<lambda>x. x \<noteq> t_worker c) (workers ?p0) \<and> maxPoolSize q = maxPoolSize ?p0
         \<and> minWorkers q = minWorkers ?p0"
        then obtain q where q: "timeout_callback c now ?p0
         = processQueue now (if length (workers q) < minWorkers q then snd (createWorker now q) else q)"
         "workers q = filter (\<lambda>x. x \<noteq> t_worker c) (workers ?p0)" "maxPoolSize q = maxPoolSize ?p0"
         "minWorkers q = minWorkers ?p0" by blast
        from drop_refill_queue [OF q(2-4), of now] u0 show ?thesis by (simp add: q(1))
      qed
      then show ?thesis unfolding Pair Timeout using Some by simp
    qed
  next
    case CleanupTick
    from remove_collected_frame [of "collect_idle now p (workers p)" p] show ?thesis
      unfolding Pair CleanupTick by (auto simp: cleanupIdleWorkers_def)
  next
    case Terminate
    show ?thesis unfolding Pair Terminate by (simp add: terminate_def)
  qed
qed

lemma peak_bound:
  "units_ok p \<Longrightarrow> length (workers (run p evs)) \<le> max (length (workers p)) (peak_capacity p evs)"
proof (induction evs arbitrary: p)
  case Nil
  then show ?case by (simp add: run_def)
next
  case (Cons ev evs)
  have u: "units_ok (step p ev)" using Cons.prems by (rule units_ok_step)
  have a: "length (workers (run (step p ev) evs)) \<le> max (length (workers (step p ev))) (peak_capacity (step p ev) evs)"
    by (rule Cons.IH [OF u])
  have b: "length (workers (step p ev)) \<le> max (length (workers p)) (maxPoolSize (step p ev))"
    by (rule step_bound [OF Cons.prems])
  have c: "maxPoolSize (step p ev) \<le> peak_capacity (step p ev) evs"
    by (cases evs) simp_all
  have r: "run p (ev # evs) = run (step p ev) evs" by (simp add: run_def)
  from a b c show ?case unfolding r by (simp add: max_def split: if_splits)
qed

lemma constructor_units:
  "workers (constructor m now) = [0] \<and> minWorkers (constructor m now) = 1 \<and> 1 \<le> maxPoolSize (constructor m now)"
  by (simp add: constructor_def initialize_def startIdleCleanup_def createWorker_def Let_def)

lemma floor_run_from:
  "units_ok p \<Longrightarrow> minWorkers p \<le> length (workers p) \<Longrightarrow> no_terminate evs
     \<Longrightarrow> minWorkers (run p evs) \<le> length (workers (run p evs))"
proof (induction evs arbitrary: p)
  case Nil
  then show ?case by (simp add: run_def)
next
  case (Cons ev evs)
  from Cons.prems(3) have nt: "snd ev \<noteq> Terminate" "no_terminate evs" by (simp_all add: no_terminate_def)
  have r: "run p (ev # evs) = run (step p ev) evs" by (simp add: run_def)
  show ?case unfolding r
    by (rule Cons.IH [OF units_ok_step [OF Cons.prems(1)] floor_step [OF Cons.prems(1,2) nt(1)] nt(2)])
qed

lemma stats_idle:
  assumes "units_ok p"
  shows "int (card (activeWorkers p)) + int (length (idle_units p)) = int (length (workers p))"
proof -
  from assms have d: "distinct (workers p)" and s: "activeWorkers p \<subseteq> set (workers p)"
    by (simp_all add: units_ok_def)
  have "set (filter (\<lambda>w. w \<in> activeWorkers p) (workers p)) = activeWorkers p" using s by auto
  moreover have "distinct (filter (\<lambda>w. w \<in> activeWorkers p) (workers p))" using d by simp
  ultimately have c: "card (activeWorkers p) = length (filter (\<lambda>w. w \<in> activeWorkers p) (workers p))"
    using distinct_card by metis
  have "length (filter (\<lambda>w. w \<in> activeWorkers p) (workers p)) + length (filter (\<lambda>w. w \<notin> activeWorkers p) (workers p))
      = length (workers p)"
    using sum_length_filter_compl [of "\<lambda>w. w \<in> activeWorkers p" "workers p"] by simp
  with c show ?thesis unfolding idle_units_def by linarith
qed

subsection \<open>Changing the capacity\<close>

lemma filter_filter_notin:
  "filter (\<lambda>w. w \<notin> set rs) (filter (\<lambda>w. w \<noteq> x) ws) = filter (\<lambda>w. w \<notin> set (x # rs)) ws"
  by (induction ws) auto

lemma shrink_idle_removed:
  "\<exists>removed.
      workers (shrink_idle p) = filter (\<lambda>w. w \<notin> set removed) (workers p) \<and>
      set removed \<subseteq> set (workers p) - activeWorkers p \<and>
      terminatedWorkers (shrink_idle p) = terminatedWorkers p @ removed \<and>
      (\<forall>w. w \<notin> set removed \<longrightarrow>
         workerToRequestId (shrink_idle p) w = workerToRequestId p w \<and>
         workerLastUsed (shrink_idle p) w = workerLastUsed p w)"
proof (induction p rule: shrink_idle.induct)
  case (1 p)
  show ?case
  proof (cases "length (workers p) > maxPoolSize p")
    case False
    then have "shrink_idle p = p" by (simp add: shrink_idle.simps [of p])
    then show ?thesis by (intro exI [of _ "[]"]) simp
  next
    case True
    show ?thesis
    proof (cases "find (\<lambda>w. w \<notin> activeWorkers p) (workers p)")
      case None
      then have "shrink_idle p = p" using True by (simp add: shrink_idle.simps [of p])
      then show ?thesis by (intro exI [of _ "[]"]) simp
    next
      case (Some idle)
      note i = find_idle_Some [OF Some]
      have e: "shrink_idle p = shrink_idle (removeWorker idle p)"
        using True Some by (simp add: shrink_idle.simps [of p])
      from "1.IH" [OF True Some] obtain removed where r:
        "workers (shrink_idle (removeWorker idle p)) = filter (\<lambda>w. w \<notin> set removed) (workers (removeWorker idle p))"
        "set removed \<subseteq> set (workers (removeWorker idle p)) - activeWorkers (removeWorker idle p)"
        "terminatedWorkers (shrink_idle (removeWorker idle p)) = terminatedWorkers (removeWorker idle p) @ removed"
        "\<forall>w. w \<notin> set removed \<longrightarrow>
           workerToRequestId (shrink_idle (removeWorker idle p)) w = workerToRequestId (removeWorker idle p) w \<and>
           workerLastUsed (shrink_idle (removeWorker idle p)) w = workerLastUsed (removeWorker idle p) w"
        by blast
      show ?thesis
      proof (intro exI [of _ "idle # removed"] conjI)
        show "workers (shrink_idle p) = filter (\<lambda>w. w \<notin> set (idle # removed)) (workers p)"
          unfolding e r(1) by (auto simp: removeWorker_def intro: filter_cong)
        show "set (idle # removed) \<subseteq> set (workers p) - activeWorkers p"
          using r(2) i by (auto simp: removeWorker_def)
        show "terminatedWorkers (shrink_idle p) = terminatedWorkers p @ idle # removed"
          unfolding e r(3) by (simp add: removeWorker_def)
        show "\<forall>w. w \<notin> set (idle # removed) \<longrightarrow>
           workerToRequestId (shrink_idle p) w = workerToRequestId p w \<and>
           workerLastUsed (shrink_idle p) w = workerLastUsed p w"
          unfolding e using r(4) by (auto simp: removeWorker_def)
      qed
    qed
  qed
qed

lemma shrink_idle_noop: "length (workers p) \<le> maxPoolSize p \<Longrightarrow> shrink_idle p = p"
  by (simp add: shrink_idle.simps [of p])

lemma find_filter_hd: "find P xs = Some x \<Longrightarrow> \<exists>ys. filter P xs = x # ys"
  by (induction xs) (auto split: if_splits)

lemma find_filter_None: "find P xs = None \<Longrightarrow> filter P xs = []"
  by (induction xs) (auto split: if_splits)

lemma length_filter_neq:
  "distinct xs \<Longrightarrow> x \<in> set xs \<Longrightarrow> length (filter (\<lambda>w. w \<noteq> x) xs) = length xs - 1"
proof (induction xs)
  case Nil
  then show ?case by simp
next
  case (Cons a xs)
  show ?case
  proof (cases "a = x")
    case True
    with Cons.prems have "x \<notin> set xs" by simp
    then have "filter (\<lambda>w. w \<noteq> x) xs = xs" by (auto simp: filter_id_conv)
    with True show ?thesis by simp
  next
    case False
    with Cons.prems have "x \<in> set xs" "distinct xs" by simp_all
    from Cons.IH [OF this(2,1)] this(1) False show ?thesis by (cases xs) auto
  qed
qed

lemma shrink_idle_exact:
  "distinct (workers p) \<Longrightarrow>
     workers (shrink_idle p)
       = filter (\<lambda>w. w \<notin> set (take (length (workers p) - maxPoolSize p) (idle_units p))) (workers p) \<and>
     terminatedWorkers (shrink_idle p)
       = terminatedWorkers p @ take (length (workers p) - maxPoolSize p) (idle_units p) \<and>
     length (workers (shrink_idle p))
       = length (workers p) - min (length (workers p) - maxPoolSize p) (length (idle_units p))"
proof (induction p rule: shrink_idle.induct)
  case (1 p)
  show ?case
  proof (cases "length (workers p) > maxPoolSize p")
    case False
    then have "shrink_idle p = p" by (simp add: shrink_idle.simps [of p])
    then show ?thesis using False by simp
  next
    case True
    show ?thesis
    proof (cases "find (\<lambda>w. w \<notin> activeWorkers p) (workers p)")
      case None
      then have e: "shrink_idle p = p" using True by (simp add: shrink_idle.simps [of p])
      have "idle_units p = []" unfolding idle_units_def by (rule find_filter_None [OF None])
      then show ?thesis by (simp add: e)
    next
      case (Some idle)
      define p1 where "p1 = removeWorker idle p"
      have e: "shrink_idle p = shrink_idle p1"
        using True Some by (simp add: shrink_idle.simps [of p] p1_def)
      from find_filter_hd [OF Some] obtain rest where i: "idle_units p = idle # rest"
        unfolding idle_units_def by blast
      have d: "distinct (idle_units p)" unfolding idle_units_def using "1.prems" by simp
      with i have nr: "idle \<notin> set rest" by simp
      have "idle \<in> set (idle_units p)" by (simp add: i)
      then have mem: "idle \<in> set (workers p)" by (simp add: idle_units_def)
      have w1: "workers p1 = filter (\<lambda>w. w \<noteq> idle) (workers p)" "maxPoolSize p1 = maxPoolSize p"
        "activeWorkers p1 = activeWorkers p" "terminatedWorkers p1 = terminatedWorkers p @ [idle]"
        by (simp_all add: p1_def removeWorker_def)
      have d1: "distinct (workers p1)" using "1.prems" by (simp add: w1)
      have "length (filter (\<lambda>w. w \<noteq> idle) (workers p)) = length (workers p) - 1"
        using "1.prems" mem by (rule length_filter_neq)
      then have l1: "length (workers p1) = length (workers p) - 1" by (simp add: w1)
      have "idle_units p1 = filter (\<lambda>w. w \<noteq> idle) (idle_units p)"
        unfolding idle_units_def w1 by (simp add: conj_commute)
      also have "\<dots> = rest" unfolding i using nr by (auto simp: filter_id_conv)
      finally have i1: "idle_units p1 = rest" .
      obtain k where k: "length (workers p) - maxPoolSize p = Suc k" "length (workers p1) - maxPoolSize p1 = k"
        using True l1 w1(2) by (cases "length (workers p) - maxPoolSize p") auto
      note ih = "1.IH" [OF True Some, folded p1_def, OF d1, unfolded k(2) i1]
      have a: "workers (shrink_idle p) = filter (\<lambda>w. w \<notin> set (take (Suc k) (idle # rest))) (workers p)"
        unfolding e using ih by (simp add: w1 filter_filter_notin conj_commute)
      have b: "terminatedWorkers (shrink_idle p) = terminatedWorkers p @ take (Suc k) (idle # rest)"
        unfolding e using ih by (simp add: w1)
      from ih have "length (workers (shrink_idle p1)) = length (workers p1) - min k (length rest)"
        by blast
      then have c: "length (workers (shrink_idle p)) = length (workers p) - min (Suc k) (length (idle # rest))"
        unfolding e l1 by simp
      show ?thesis unfolding k(1) i using a b c by blast
    qed
  qed
qed

text \<open>
  C8, as the code has it. \<open>setMaxPoolSize n\<close> sets the capacity to \<open>max 1 n\<close>. It leaves
  the active set, the queue, the pending entries, the request counter, the timers and the
  settled promises as they are. The units it removes are idle ones only, each terminated, in
  the pool's order, and it stops when the pool is within the new capacity or no idle unit is
  left; a pool already within the new capacity loses none. The records of the remaining units
  are unchanged. When the units of the pool are distinct, as they are in every state that a
  pool reaches from its construction, the units removed are exactly the first idle units, as
  many as the pool has units above the new capacity, or all the idle units when there are
  fewer.
\<close>

theorem C8_setMaxPoolSize_frame:
  "let p' = setMaxPoolSize n p in
     maxPoolSize p' = nat (max 1 n) \<and>
     activeWorkers p' = activeWorkers p \<and>
     queue p' = queue p \<and>
     pendingRequests p' = pendingRequests p \<and>
     requestIdCounter p' = requestIdCounter p \<and>
     timers p' = timers p \<and>
     settled p' = settled p \<and>
     posted p' = posted p \<and>
     (\<exists>removed.
        workers p' = filter (\<lambda>w. w \<notin> set removed) (workers p) \<and>
        set removed \<subseteq> set (workers p) - activeWorkers p \<and>
        terminatedWorkers p' = terminatedWorkers p @ removed \<and>
        (\<forall>w. w \<notin> set removed \<longrightarrow>
           workerToRequestId p' w = workerToRequestId p w \<and> workerLastUsed p' w = workerLastUsed p w)) \<and>
     (length (workers p') \<le> maxPoolSize p' \<or> set (workers p') \<subseteq> activeWorkers p') \<and>
     (length (workers p) \<le> nat (max 1 n) \<longrightarrow> workers p' = workers p) \<and>
     (distinct (workers p) \<longrightarrow>
        workers p' = filter (\<lambda>w. w \<notin> set (take (length (workers p) - nat (max 1 n)) (idle_units p)))
                       (workers p) \<and>
        terminatedWorkers p' = terminatedWorkers p @ take (length (workers p) - nat (max 1 n)) (idle_units p) \<and>
        length (workers p')
          = length (workers p) - min (length (workers p) - nat (max 1 n)) (length (idle_units p))) \<and>
     distinct (workers (run (constructor m now0) evs))"
proof -
  define nxt where "nxt = nat (max 1 (if n = 0 then 1 else n))"
  have nx: "nxt = nat (max 1 n)" unfolding nxt_def by simp
  let ?p0 = "p\<lparr>maxPoolSize := nxt\<rparr>"
  have e: "setMaxPoolSize n p = (shrink_idle ?p0)\<lparr>minWorkers := min (minWorkers p) nxt\<rparr>"
    unfolding setMaxPoolSize_eq nxt_def ..
  have f: "maxPoolSize (setMaxPoolSize n p) = nxt" "activeWorkers (setMaxPoolSize n p) = activeWorkers p"
    "queue (setMaxPoolSize n p) = queue p" "pendingRequests (setMaxPoolSize n p) = pendingRequests p"
    "requestIdCounter (setMaxPoolSize n p) = requestIdCounter p" "timers (setMaxPoolSize n p) = timers p"
    "settled (setMaxPoolSize n p) = settled p" "posted (setMaxPoolSize n p) = posted p"
    unfolding e by (simp_all add: shrink_idle_frame)
  have r: "\<exists>removed.
        workers (setMaxPoolSize n p) = filter (\<lambda>w. w \<notin> set removed) (workers p) \<and>
        set removed \<subseteq> set (workers p) - activeWorkers p \<and>
        terminatedWorkers (setMaxPoolSize n p) = terminatedWorkers p @ removed \<and>
        (\<forall>w. w \<notin> set removed \<longrightarrow>
           workerToRequestId (setMaxPoolSize n p) w = workerToRequestId p w \<and>
           workerLastUsed (setMaxPoolSize n p) w = workerLastUsed p w)"
    using shrink_idle_removed [of ?p0] unfolding e by simp
  have po: "length (workers (setMaxPoolSize n p)) \<le> maxPoolSize (setMaxPoolSize n p)
      \<or> set (workers (setMaxPoolSize n p)) \<subseteq> activeWorkers (setMaxPoolSize n p)"
    by (rule setMaxPoolSize_post)
  have no: "length (workers p) \<le> nxt \<Longrightarrow> workers (setMaxPoolSize n p) = workers p"
    unfolding e using shrink_idle_noop [of ?p0] by simp
  have iu: "idle_units ?p0 = idle_units p" by (simp add: idle_units_def)
  have ex: "workers (setMaxPoolSize n p)
          = filter (\<lambda>w. w \<notin> set (take (length (workers p) - nxt) (idle_units p))) (workers p) \<and>
        terminatedWorkers (setMaxPoolSize n p)
          = terminatedWorkers p @ take (length (workers p) - nxt) (idle_units p) \<and>
        length (workers (setMaxPoolSize n p))
          = length (workers p) - min (length (workers p) - nxt) (length (idle_units p))"
    if d: "distinct (workers p)"
  proof -
    have "distinct (workers ?p0)" using d by simp
    note x = shrink_idle_exact [OF this, simplified, unfolded iu]
    have "workers (setMaxPoolSize n p) = workers (shrink_idle ?p0)"
      "terminatedWorkers (setMaxPoolSize n p) = terminatedWorkers (shrink_idle ?p0)"
      unfolding e by simp_all
    then show ?thesis using x by metis
  qed
  have u: "units_ok (run (constructor m now0) evs)" by (rule units_ok_run)
  then have di: "distinct (workers (run (constructor m now0) evs))" by (simp add: units_ok_def)
  show ?thesis unfolding Let_def using f r po no ex di unfolding nx by blast
qed

theorem C8_setMaxPoolSize_frame_witness:
  "let p = run (constructor 4 0)
             [(0, GeneratePoints 100 1 ''linear'' Float32),
              (1, GeneratePoints 100 1 ''linear'' Float32),
              (2, GeneratePoints 100 1 ''linear'' Float32),
              (3, Message 0 (ErrorResponse \<lparr>er_requestId = 1, er_error = ''x''\<rparr>)),
              (4, Message 2 (ErrorResponse \<lparr>er_requestId = 3, er_error = ''x''\<rparr>))];
       p' = setMaxPoolSize 2 p
   in workers p = [0, 1, 2] \<and> activeWorkers p = {1} \<and> idle_units p = [0, 2] \<and>
      workers p' = [1, 2] \<and> terminatedWorkers p' = terminatedWorkers p @ [0] \<and>
      maxPoolSize p' = 2 \<and> activeWorkers p' = {1} \<and> pendingRequests p' = pendingRequests p \<and>
      workers (setMaxPoolSize 5 p) = workers p"
proof -
  define p where "p = run (constructor 4 0)
             [(0, GeneratePoints 100 1 ''linear'' Float32),
              (1, GeneratePoints 100 1 ''linear'' Float32),
              (2, GeneratePoints 100 1 ''linear'' Float32),
              (3, Message 0 (ErrorResponse \<lparr>er_requestId = 1, er_error = ''x''\<rparr>)),
              (4, Message 2 (ErrorResponse \<lparr>er_requestId = 3, er_error = ''x''\<rparr>))]"
  have w: "workers p = [0, 1, 2]" "activeWorkers p = {1}" unfolding p_def by (auto simp add: pool_eval)
  have iu: "idle_units p = [0, 2]" by (simp add: idle_units_def w)
  have d: "distinct (workers p)" by (simp add: w)
  note t = C8_setMaxPoolSize_frame [of 2 p 4 0 "[]", unfolded Let_def]
  from t have f: "maxPoolSize (setMaxPoolSize 2 p) = nat (max 1 2)"
      "activeWorkers (setMaxPoolSize 2 p) = activeWorkers p"
      "pendingRequests (setMaxPoolSize 2 p) = pendingRequests p"
    by blast+
  from t d have x: "workers (setMaxPoolSize 2 p)
        = filter (\<lambda>w. w \<notin> set (take (length (workers p) - nat (max 1 2)) (idle_units p))) (workers p)"
    "terminatedWorkers (setMaxPoolSize 2 p)
        = terminatedWorkers p @ take (length (workers p) - nat (max 1 2)) (idle_units p)"
    by blast+
  from x have "workers (setMaxPoolSize 2 p) = [1, 2]"
    "terminatedWorkers (setMaxPoolSize 2 p) = terminatedWorkers p @ [0]"
    by (simp_all add: w iu)
  moreover from C8_setMaxPoolSize_frame [of 5 p 4 0 "[]", unfolded Let_def] w
  have "workers (setMaxPoolSize 5 p) = workers p" by simp
  ultimately show ?thesis using w iu f unfolding Let_def p_def [symmetric] by simp
qed

theorem C8_setMaxPoolSize_frame_counterexample:
  "let p = constructor 4 0; p' = setMaxPoolSize 0 p
   in workers p = [0] \<and> activeWorkers p = {} \<and>
      workers p' = [0] \<and> maxPoolSize p' = 1 \<and> \<not> int (length (workers p')) \<le> 0"
  by (simp add: pool_eval)

subsection \<open>The invariant of the units\<close>

text \<open>
  C3, as the code has it. In every state \<open>p\<close> that a pool reaches from its construction by
  submitted requests, capacity changes, messages, crashes and timeouts of workers and idle
  sweeps (no shutdown): the number of units is at least the floor; the active and the idle
  count of the statistics add up to the number of units, the idle count being the number of
  idle units; the number of units is at most the largest capacity the pool has had so far;
  no event raises it above the capacity (after an event it is at most the larger of what it
  was and the capacity); and after a change of capacity the pool is within the capacity or
  all its remaining units are active.
\<close>

theorem C3_units_invariant:
  "no_terminate evs \<longrightarrow>
     (let p = run (constructor m now0) evs in
        minWorkers p \<le> length (workers p) \<and>
        st_activeWorkers (getStats p) + st_idleWorkers (getStats p) = st_currentWorkers (getStats p) \<and>
        st_idleWorkers (getStats p) = int (length (idle_units p)) \<and>
        length (workers p) \<le> peak_capacity (constructor m now0) evs \<and>
        (\<forall>ev. length (workers (step p ev)) \<le> max (length (workers p)) (maxPoolSize (step p ev))) \<and>
        (\<forall>n. length (workers (setMaxPoolSize n p)) \<le> maxPoolSize (setMaxPoolSize n p)
               \<or> set (workers (setMaxPoolSize n p)) \<subseteq> activeWorkers (setMaxPoolSize n p)))"
proof
  assume nt: "no_terminate evs"
  define p where "p = run (constructor m now0) evs"
  have u0: "units_ok (constructor m now0)" by (rule units_ok_constructor)
  have u: "units_ok p" unfolding p_def by (rule units_ok_run)
  have c: "workers (constructor m now0) = [0]" "minWorkers (constructor m now0) = 1"
    "1 \<le> maxPoolSize (constructor m now0)"
    using constructor_units [of m now0] by simp_all
  have fl: "minWorkers p \<le> length (workers p)"
    unfolding p_def by (rule floor_run_from [OF u0 _ nt]) (simp add: c)
  have st: "st_activeWorkers (getStats p) + st_idleWorkers (getStats p) = st_currentWorkers (getStats p)"
    by (simp add: getStats_def)
  have idle: "st_idleWorkers (getStats p) = int (length (idle_units p))"
    using stats_idle [OF u] by (simp add: getStats_def)
  have "maxPoolSize (constructor m now0) \<le> peak_capacity (constructor m now0) evs"
    by (cases evs) simp_all
  with c(3) have "length (workers (constructor m now0)) \<le> peak_capacity (constructor m now0) evs"
    by (simp add: c(1))
  with peak_bound [OF u0, of evs] have pk: "length (workers p) \<le> peak_capacity (constructor m now0) evs"
    unfolding p_def by simp
  have sb: "\<forall>ev. length (workers (step p ev)) \<le> max (length (workers p)) (maxPoolSize (step p ev))"
    using step_bound [OF u] by blast
  have sm: "\<forall>n. length (workers (setMaxPoolSize n p)) \<le> maxPoolSize (setMaxPoolSize n p)
               \<or> set (workers (setMaxPoolSize n p)) \<subseteq> activeWorkers (setMaxPoolSize n p)"
    using setMaxPoolSize_post by blast
  show "let p = run (constructor m now0) evs in
        minWorkers p \<le> length (workers p) \<and>
        st_activeWorkers (getStats p) + st_idleWorkers (getStats p) = st_currentWorkers (getStats p) \<and>
        st_idleWorkers (getStats p) = int (length (idle_units p)) \<and>
        length (workers p) \<le> peak_capacity (constructor m now0) evs \<and>
        (\<forall>ev. length (workers (step p ev)) \<le> max (length (workers p)) (maxPoolSize (step p ev))) \<and>
        (\<forall>n. length (workers (setMaxPoolSize n p)) \<le> maxPoolSize (setMaxPoolSize n p)
               \<or> set (workers (setMaxPoolSize n p)) \<subseteq> activeWorkers (setMaxPoolSize n p))"
    unfolding Let_def p_def [symmetric] using fl st idle pk sb sm by blast
qed

theorem C3_units_invariant_witness:
  "let evs = [(0, GeneratePoints 100 1 ''linear'' Float32),
              (1, GeneratePoints 100 1 ''linear'' Float32),
              (2, Crash 0),
              (3, SetMaxPoolSize 1)];
       p = run (constructor 4 0) evs
   in no_terminate evs \<and> workers p = [1] \<and> minWorkers p = 1 \<and> minWorkers p \<le> length (workers p) \<and>
      st_idleWorkers (getStats p) = int (length (idle_units p)) \<and>
      length (workers p) \<le> peak_capacity (constructor 4 0) evs"
proof -
  define evs where "evs = [(0::int, GeneratePoints 100 1 ''linear'' Float32),
              (1, GeneratePoints 100 1 ''linear'' Float32),
              (2, Crash 0),
              (3, SetMaxPoolSize 1)]"
  have nt: "no_terminate evs" by (simp add: evs_def no_terminate_def)
  have w: "workers (run (constructor 4 0) evs) = [1]" "minWorkers (run (constructor 4 0) evs) = 1"
    unfolding evs_def by (simp_all add: pool_eval)
  from C3_units_invariant [of evs 4 0] nt w show ?thesis unfolding Let_def evs_def [symmetric] by simp
qed

theorem C3_units_invariant_counterexample:
  "let p = run (constructor 4 0)
             [(0, GeneratePoints 100 1 ''linear'' Float32),
              (1, GeneratePoints 100 1 ''linear'' Float32),
              (2, SetMaxPoolSize 1)]
   in workers p = [0, 1] \<and> activeWorkers p = {0, 1} \<and> maxPoolSize p = 1 \<and>
      \<not> length (workers p) \<le> maxPoolSize p"
  by (auto simp add: pool_eval)

subsection \<open>Shutdown\<close>

lemma terminate_effect:
  "settled (terminate p)
     = settled p @ map (\<lambda>request. (q_promise request, Rejected ''Worker pool terminated'')) (queue p) \<and>
   queue (terminate p) = [] \<and> pendingRequests (terminate p) = [] \<and> workers (terminate p) = [] \<and>
   activeWorkers (terminate p) = {} \<and> terminatedWorkers (terminate p) = terminatedWorkers p @ workers p \<and>
   \<not> cleanupInterval (terminate p)"
  by (simp add: terminate_def)

lemma terminate_rejects_queued:
  "let p0 = run (constructor 1 0) [(0, GeneratePoints 100 1 ''linear'' Float32), (1, GeneratePoints 100 1 ''linear'' Float32)];
       p1 = step p0 (5, Terminate)
   in map fst (pendingRequests p0) = [1] \<and> map q_requestId (queue p0) = [2] \<and>
      settled p1 = [(2, Rejected ''Worker pool terminated'')]"
  by (simp add: pool_eval)

text \<open>
  C1 fails on the code for the pending requests. A pool of capacity 4 takes one request, which
  is dispatched at once to the warm worker: request 1 is pending, nothing is queued. After
  \<open>terminate\<close> the pending entry, its timer and the worker are gone and no promise has been
  settled: the promise of request 1 is neither resolved nor rejected, and nothing is left that
  could settle it. (A queued request is rejected: \<open>terminate_rejects_queued\<close>.)
\<close>

theorem C1_terminate_drops_pending:
  "let p0 = run (constructor 4 0) [(0, GeneratePoints 100 1 ''linear'' Float32)];
       p1 = step p0 (5, Terminate)
   in map fst (pendingRequests p0) = [1] \<and> queue p0 = [] \<and> settled p0 = [] \<and>
      settled p1 = [] \<and> pendingRequests p1 = [] \<and> queue p1 = [] \<and> workers p1 = [] \<and>
      timers p1 1 = None \<and> terminatedWorkers p1 = [0]"
  by (simp add: pool_eval)

subsection \<open>The requests are well formed\<close>

lemma requests_ok_cong:
  "queue p' = queue p \<Longrightarrow> pendingRequests p' = pendingRequests p \<Longrightarrow> settled p' = settled p \<Longrightarrow>
   requestIdCounter p' = requestIdCounter p \<Longrightarrow> timers p' = timers p \<Longrightarrow>
   requests_ok p' = requests_ok p"
  by (simp add: requests_ok_def)

lemma getAvailableWorker_requests:
  assumes "getAvailableWorker now p = (r, p')"
  shows "queue p' = queue p" "pendingRequests p' = pendingRequests p" "settled p' = settled p"
         "requestIdCounter p' = requestIdCounter p" "timers p' = timers p"
  using getAvailableWorker_cases [OF assms] by auto

lemma createWorker_requests:
  "queue (snd (createWorker now p)) = queue p" "pendingRequests (snd (createWorker now p)) = pendingRequests p"
  "settled (snd (createWorker now p)) = settled p"
  "requestIdCounter (snd (createWorker now p)) = requestIdCounter p" "timers (snd (createWorker now p)) = timers p"
  by (simp_all add: createWorker_def Let_def)

text \<open>A request that is nowhere yet becomes pending.\<close>

lemma requests_ok_dispatchToWorker:
  assumes ok: "requests_ok p"
    and pr: "q_promise req = q_requestId req"
    and le: "q_requestId req \<le> requestIdCounter p"
    and nq: "q_requestId req \<notin> q_requestId ` set (queue p)"
    and np: "map_of (pendingRequests p) (q_requestId req) = None"
    and ns: "q_requestId req \<notin> fst ` set (settled p)"
  shows "requests_ok (dispatchToWorker now w req p)"
proof -
  have nq': "\<forall>q\<in>set (queue p). q_requestId q \<noteq> q_requestId req" using nq by (metis imageI)
  have f: "queue (dispatchToWorker now w req p) = queue p"
    "settled (dispatchToWorker now w req p) = settled p"
    "requestIdCounter (dispatchToWorker now w req p) = requestIdCounter p"
    "map_of (pendingRequests (dispatchToWorker now w req p))
       = (map_of (pendingRequests p))(q_requestId req \<mapsto> \<lparr>p_promise = q_promise req, p_timeoutId = nextTimer p\<rparr>)"
    "timers (dispatchToWorker now w req p)
       = (timers p)(nextTimer p \<mapsto> \<lparr>t_worker = w, t_requestId = q_requestId req,
              t_promise = q_promise req, t_due = now + requestTimeoutMs\<rparr>)"
    by (simp_all add: dispatchToWorker_def Let_def update_conv')
  show ?thesis
    unfolding requests_ok_def f using ok pr le nq' ns
    by (simp add: requests_ok_def)
qed

lemma requests_ok_processQueue: "requests_ok p \<Longrightarrow> requests_ok (processQueue now p)"
proof -
  assume ok: "requests_ok p"
  show ?thesis
  proof (cases "queue p")
    case Nil
    then show ?thesis using ok by (simp add: processQueue_def)
  next
    case (Cons req rest)
    obtain r p' where g: "getAvailableWorker now p = (r, p')" by (cases "getAvailableWorker now p")
    note f = getAvailableWorker_requests [OF g]
    have "requests_ok p' = requests_ok p" by (rule requests_ok_cong) (simp_all add: f)
    with ok have ok': "requests_ok p'" by simp
    show ?thesis
    proof (cases r)
      case None
      then show ?thesis using ok' g Cons by (simp add: processQueue_def)
    next
      case (Some w)
      let ?p1 = "p'\<lparr>queue := rest\<rparr>"
      have q: "queue p' = req # rest" using f Cons by simp
      have ok1: "requests_ok ?p1" using ok' q by (auto simp: requests_ok_def)
      have "requests_ok (dispatchToWorker now w req ?p1)"
      proof (rule requests_ok_dispatchToWorker [OF ok1])
        show "q_promise req = q_requestId req" using ok' q by (simp add: requests_ok_def)
        show "q_requestId req \<le> requestIdCounter ?p1" using ok' q by (simp add: requests_ok_def)
        show "q_requestId req \<notin> q_requestId ` set (queue ?p1)" using ok' q by (auto simp: requests_ok_def)
        show "map_of (pendingRequests ?p1) (q_requestId req) = None" using ok' q by (simp add: requests_ok_def)
        show "q_requestId req \<notin> fst ` set (settled ?p1)" using ok' q by (simp add: requests_ok_def)
      qed
      then show ?thesis using g Cons Some by (simp add: processQueue_def)
    qed
  qed
qed

lemma requests_ok_fresh:
  assumes "requests_ok p"
  shows "Suc (requestIdCounter p) \<notin> q_requestId ` set (queue p)"
    "map_of (pendingRequests p) (Suc (requestIdCounter p)) = None"
    "Suc (requestIdCounter p) \<notin> fst ` set (settled p)"
proof -
  show "Suc (requestIdCounter p) \<notin> q_requestId ` set (queue p)"
    using assms unfolding requests_ok_def by (metis Suc_n_not_le_n imageE)
  show "map_of (pendingRequests p) (Suc (requestIdCounter p)) = None"
  proof (cases "map_of (pendingRequests p) (Suc (requestIdCounter p))")
    case None then show ?thesis .
  next
    case (Some e)
    with assms have "Suc (requestIdCounter p) \<le> requestIdCounter p" unfolding requests_ok_def by blast
    then show ?thesis by simp
  qed
  show "Suc (requestIdCounter p) \<notin> fst ` set (settled p)"
    using assms unfolding requests_ok_def by (metis Suc_n_not_le_n)
qed

lemma requests_ok_bump:
  "requests_ok p \<Longrightarrow> requests_ok (p\<lparr>requestIdCounter := Suc (requestIdCounter p)\<rparr>)"
  unfolding requests_ok_def by (auto simp: le_Suc_eq)

lemma requests_ok_generatePoints: "requests_ok p \<Longrightarrow> requests_ok (generatePoints n l c f now p)"
proof -
  assume ok: "requests_ok p"
  let ?id = "Suc (requestIdCounter p)"
  let ?req = "\<lparr>q_numPoints = max 10 (min 10000000 n), q_numLines = max 1 (min 1000 l), q_curveType = c,
               q_dataFormat = f, q_requestId = ?id, q_promise = ?id\<rparr>"
  let ?p1 = "p\<lparr>requestIdCounter := ?id\<rparr>"
  note fr = requests_ok_fresh [OF ok]
  have ok1: "requests_ok ?p1" using ok by (rule requests_ok_bump)
  obtain r p' where g: "getAvailableWorker now ?p1 = (r, p')" by (cases "getAvailableWorker now ?p1")
  note ff = getAvailableWorker_requests [OF g]
  have "requests_ok p' = requests_ok ?p1" by (rule requests_ok_cong) (simp_all add: ff)
  with ok1 have ok': "requests_ok p'" by simp
  show ?thesis
  proof (cases r)
    case None
    have "requests_ok (p'\<lparr>queue := queue p' @ [?req]\<rparr>)"
      using ok' ff fr unfolding requests_ok_def by auto
    then show ?thesis using g None by (simp add: generatePoints_def Let_def)
  next
    case (Some w)
    have "requests_ok (dispatchToWorker now w ?req p')"
      by (rule requests_ok_dispatchToWorker [OF ok']) (use ff fr in simp_all)
    then show ?thesis using g Some by (simp add: generatePoints_def Let_def)
  qed
qed


text \<open>A pending request is taken out of the map, and settled or dropped.\<close>

lemma requests_okD:
  assumes "requests_ok p"
  shows "distinct (map q_requestId (queue p))"
    and "\<And>r. r \<in> set (queue p) \<Longrightarrow> q_promise r = q_requestId r \<and> q_requestId r \<le> requestIdCounter p
        \<and> map_of (pendingRequests p) (q_requestId r) = None \<and> q_requestId r \<notin> fst ` set (settled p)"
    and "\<And>k e. map_of (pendingRequests p) k = Some e \<Longrightarrow>
        p_promise e = k \<and> k \<le> requestIdCounter p \<and> k \<notin> fst ` set (settled p)"
    and "\<And>t c. timers p t = Some c \<Longrightarrow> t_promise c = t_requestId c"
    and "\<And>k. k \<in> fst ` set (settled p) \<Longrightarrow> k \<le> requestIdCounter p"
    and "distinct (map fst (settled p))"
  using assms unfolding requests_ok_def by blast+

lemma requests_okI:
  assumes "distinct (map q_requestId (queue p))"
    and "\<And>r. r \<in> set (queue p) \<Longrightarrow> q_promise r = q_requestId r \<and> q_requestId r \<le> requestIdCounter p
        \<and> map_of (pendingRequests p) (q_requestId r) = None \<and> q_requestId r \<notin> fst ` set (settled p)"
    and "\<And>k e. map_of (pendingRequests p) k = Some e \<Longrightarrow>
        p_promise e = k \<and> k \<le> requestIdCounter p \<and> k \<notin> fst ` set (settled p)"
    and "\<And>t c. timers p t = Some c \<Longrightarrow> t_promise c = t_requestId c"
    and "\<And>k. k \<in> fst ` set (settled p) \<Longrightarrow> k \<le> requestIdCounter p"
    and "distinct (map fst (settled p))"
  shows "requests_ok p"
  using assms unfolding requests_ok_def by blast

lemma requests_ok_take_pending:
  assumes ok: "requests_ok p"
    and m: "map_of (pendingRequests p) k = Some e"
    and q: "queue q = queue p" "pendingRequests q = AList.delete k (pendingRequests p)"
      "settled q = settled p @ [(k, out)] \<or> settled q = settled p"
      "requestIdCounter q = requestIdCounter p"
      "\<forall>t c. timers q t = Some c \<longrightarrow> timers p t = Some c"
  shows "requests_ok q"
proof (rule requests_okI)
  note D = requests_okD [OF ok]
  from D(3) [OF m] have k: "k \<le> requestIdCounter p" "k \<notin> fst ` set (settled p)" by simp_all
  have pm: "map_of (pendingRequests q) = (map_of (pendingRequests p))(k := None)"
    by (simp add: q(2) delete_conv')
  have s: "x = k \<or> x \<in> fst ` set (settled p)" if "x \<in> fst ` set (settled q)" for x
    using q(3) that by auto
  show "distinct (map q_requestId (queue q))" using D(1) by (simp add: q(1))
  show "distinct (map fst (settled q))" using q(3) D(6) k(2) by auto
  show "q_promise r = q_requestId r \<and> q_requestId r \<le> requestIdCounter q
        \<and> map_of (pendingRequests q) (q_requestId r) = None
        \<and> q_requestId r \<notin> fst ` set (settled q)" if r: "r \<in> set (queue q)" for r
  proof -
    from r have r': "r \<in> set (queue p)" by (simp add: q(1))
    note a = D(2) [OF r']
    from a m have "q_requestId r \<noteq> k" by auto
    with a s [of "q_requestId r"] show ?thesis by (auto simp: q(4) pm)
  qed
  show "p_promise e' = k' \<and> k' \<le> requestIdCounter q \<and> k' \<notin> fst ` set (settled q)"
    if "map_of (pendingRequests q) k' = Some e'" for k' e'
  proof -
    from that have nk: "k' \<noteq> k" and m': "map_of (pendingRequests p) k' = Some e'"
      by (auto simp: pm split: if_splits)
    note a = D(3) [OF m']
    with nk s [of k'] show ?thesis by (auto simp: q(4))
  qed
  show "t_promise c = t_requestId c" if "timers q t = Some c" for t c
    using D(4) q(5) that by blast
  show "k' \<le> requestIdCounter q" if "k' \<in> fst ` set (settled q)" for k'
    using s [OF that] D(5) [of k'] k(1) by (auto simp: q(4))
qed

lemma clearTimeout_sub: "clearTimeout t ts x = Some c \<Longrightarrow> ts x = Some c"
  by (simp add: clearTimeout_def split: if_splits)

lemma requests_ok_lastUsed [simp]: "requests_ok (p\<lparr>workerLastUsed := l\<rparr>) = requests_ok p"
  by (simp add: requests_ok_def)

lemma pending_promise: "requests_ok p \<Longrightarrow> map_of (pendingRequests p) k = Some e \<Longrightarrow> p_promise e = k"
  unfolding requests_ok_def by blast

lemma requests_ok_worker_onmessage:
  assumes ok: "requests_ok p"
  shows "requests_ok (worker_onmessage w d now p)"
proof (cases "map_of (pendingRequests p) (response_requestId d)")
  case None
  then show ?thesis using ok by (simp add: worker_onmessage_def Let_def requests_ok_processQueue)
next
  case (Some e)
  note pe = pending_promise [OF ok Some]
  define p2 where "p2 = p\<lparr>workerLastUsed := (workerLastUsed p)(w \<mapsto> now),
                         pendingRequests := AList.delete (response_requestId d) (pendingRequests p),
                         activeWorkers := activeWorkers p - {w},
                         workerToRequestId := (workerToRequestId p)(w := None),
                         timers := clearTimeout (p_timeoutId e) (timers p)\<rparr>"
  have e: "worker_onmessage w d now p =
     (case d of
        SuccessResponse r \<Rightarrow>
          (case result_data r of
             None \<Rightarrow> p2
           | Some resultData \<Rightarrow>
               processQueue now
                 (settle (p_promise e) (Resolved \<lparr>r_data = resultData, r_bounds = response_bounds r\<rparr>) p2))
      | ErrorResponse er \<Rightarrow>
          processQueue now
            (settle (p_promise e) (Rejected (if er_error er = [] then ''Worker error'' else er_error er)) p2))"
    unfolding worker_onmessage_def Let_def p2_def using Some
    by (simp split: WorkerResponse.split option.split)
  have a: "requests_ok p2"
    by (rule requests_ok_take_pending [OF ok Some, where out = undefined])
       (auto simp: p2_def dest: clearTimeout_sub)
  have b: "requests_ok (settle (p_promise e) out p2)" for out
    by (rule requests_ok_take_pending [OF ok Some, where out = out])
       (auto simp: p2_def settle_def pe dest: clearTimeout_sub)
  show ?thesis unfolding e
    by (simp add: a b requests_ok_processQueue split: WorkerResponse.split option.split)
qed

lemma requests_ok_drop_worker:
  "requests_ok (p\<lparr>activeWorkers := a, workerToRequestId := m, workerLastUsed := l,
                  workers := ws, terminatedWorkers := t\<rparr>) = requests_ok p"
  by (simp add: requests_ok_def)

lemma requests_ok_refill:
  "requests_ok p \<Longrightarrow> requests_ok (if length (workers p) < minWorkers p then snd (createWorker now p) else p)"
  using requests_ok_cong [OF createWorker_requests, of now p] by simp

lemma requests_ok_worker_onerror:
  assumes ok: "requests_ok p"
  shows "requests_ok (worker_onerror w now p)"
proof -
  define p1 where "p1 = (case workerToRequestId p w of
                  None \<Rightarrow> p
                | Some requestId \<Rightarrow>
                    (case map_of (pendingRequests p) requestId of
                       None \<Rightarrow> p
                     | Some entry \<Rightarrow>
                         settle (p_promise entry) (Rejected ''Worker crashed while processing request'')
                           (p\<lparr>pendingRequests := AList.delete requestId (pendingRequests p),
                              timers := clearTimeout (p_timeoutId entry) (timers p)\<rparr>)))"
  have "requests_ok p1"
  proof (cases "workerToRequestId p w")
    case None
    then show ?thesis using ok by (simp add: p1_def)
  next
    case (Some k)
    show ?thesis
    proof (cases "map_of (pendingRequests p) k")
      case None
      then show ?thesis using ok Some by (simp add: p1_def)
    next
      case (Some e)
      note pe = pending_promise [OF ok Some]
      have "requests_ok (settle (p_promise e) (Rejected ''Worker crashed while processing request'')
                           (p\<lparr>pendingRequests := AList.delete k (pendingRequests p),
                              timers := clearTimeout (p_timeoutId e) (timers p)\<rparr>))"
        by (rule requests_ok_take_pending [OF ok Some,
              where out = "Rejected ''Worker crashed while processing request''"])
           (auto simp: settle_def pe dest: clearTimeout_sub)
      then show ?thesis using \<open>workerToRequestId p w = Some k\<close> Some by (simp add: p1_def)
    qed
  qed
  then show ?thesis
    unfolding worker_onerror_def Let_def p1_def [symmetric]
    by (intro requests_ok_processQueue requests_ok_refill) (simp add: requests_ok_drop_worker)
qed

lemma requests_ok_timeout_callback:
  assumes ok: "requests_ok p" and c: "t_promise c = t_requestId c"
  shows "requests_ok (timeout_callback c now p)"
proof (cases "map_of (pendingRequests p) (t_requestId c)")
  case None
  then show ?thesis using ok by (simp add: timeout_callback_def)
next
  case (Some e)
  define p3 where "p3 = removeWorker (t_worker c)
      (settle (t_promise c) (Rejected ''Worker request timed out'')
        (p\<lparr>pendingRequests := AList.delete (t_requestId c) (pendingRequests p),
           activeWorkers := activeWorkers p - {t_worker c},
           workerToRequestId := (workerToRequestId p)(t_worker c := None)\<rparr>))"
  have e: "timeout_callback c now p
      = processQueue now (if length (workers p3) < minWorkers p3 then snd (createWorker now p3) else p3)"
    unfolding timeout_callback_def Let_def p3_def using Some by simp
  have "requests_ok p3"
    by (rule requests_ok_take_pending [OF ok Some, where out = "Rejected ''Worker request timed out''"])
       (simp_all add: p3_def removeWorker_def settle_def c)
  then show ?thesis unfolding e by (intro requests_ok_processQueue requests_ok_refill)
qed

lemma requests_ok_setMaxPoolSize: "requests_ok p \<Longrightarrow> requests_ok (setMaxPoolSize n p)"
  unfolding setMaxPoolSize_eq by (simp add: requests_ok_def shrink_idle_frame)

lemma remove_collected_requests:
  "queue (remove_collected cs p) = queue p" "pendingRequests (remove_collected cs p) = pendingRequests p"
  "settled (remove_collected cs p) = settled p" "requestIdCounter (remove_collected cs p) = requestIdCounter p"
  "timers (remove_collected cs p) = timers p" "activeWorkers (remove_collected cs p) = activeWorkers p"
  "posted (remove_collected cs p) = posted p" "minWorkers (remove_collected cs p) = minWorkers p"
  "maxPoolSize (remove_collected cs p) = maxPoolSize p"
  by (induction cs arbitrary: p) (simp_all add: removeWorker_def)

lemma requests_ok_cleanupIdleWorkers: "requests_ok p \<Longrightarrow> requests_ok (cleanupIdleWorkers now p)"
  unfolding cleanupIdleWorkers_def
  using requests_ok_cong [OF remove_collected_requests(1-5)] by simp

lemma requests_ok_terminate: "requests_ok p \<Longrightarrow> requests_ok (terminate p)"
proof (rule requests_okI)
  assume ok: "requests_ok p"
  note D = requests_okD [OF ok]
  have s: "settled (terminate p)
      = settled p @ map (\<lambda>request. (q_promise request, Rejected ''Worker pool terminated'')) (queue p)"
    by (simp add: terminate_def)
  have m: "map fst (settled (terminate p)) = map fst (settled p) @ map q_requestId (queue p)"
    unfolding s using D(2) by (simp add: comp_def cong: map_cong)
  show "distinct (map q_requestId (queue (terminate p)))" by (simp add: terminate_def)
  have dis: "set (map fst (settled p)) \<inter> set (map q_requestId (queue p)) = {}"
  proof -
    have "\<forall>r\<in>set (queue p). q_requestId r \<notin> fst ` set (settled p)"
      using D(2) by simp
    then show ?thesis by (simp only: set_map) (rule ccontr, force)
  qed
  show "distinct (map fst (settled (terminate p)))"
    unfolding m using D(1) D(6) dis by (simp only: distinct_append)
  show "q_promise r = q_requestId r \<and> q_requestId r \<le> requestIdCounter (terminate p)
        \<and> map_of (pendingRequests (terminate p)) (q_requestId r) = None
        \<and> q_requestId r \<notin> fst ` set (settled (terminate p))" if "r \<in> set (queue (terminate p))" for r
    using that by (simp add: terminate_def)
  show "p_promise e = k \<and> k \<le> requestIdCounter (terminate p) \<and> k \<notin> fst ` set (settled (terminate p))"
    if "map_of (pendingRequests (terminate p)) k = Some e" for k e
    using that by (simp add: terminate_def)
  have sub: "timers (terminate p) t = Some c \<Longrightarrow> timers p t = Some c" for t c
  proof -
    have "fold (\<lambda>entry. clearTimeout (p_timeoutId entry)) es ts t = Some c \<Longrightarrow> ts t = Some c" for es ts
      by (induction es arbitrary: ts) (auto dest: clearTimeout_sub)
    then show "timers (terminate p) t = Some c \<Longrightarrow> timers p t = Some c" by (simp add: terminate_def)
  qed
  show "t_promise c = t_requestId c" if "timers (terminate p) t = Some c" for t c
    using D(4) [OF sub [OF that]] .
  show "k \<le> requestIdCounter (terminate p)" if "k \<in> fst ` set (settled (terminate p))" for k
  proof -
    from that have "k \<in> set (map fst (settled (terminate p)))" by simp
    then have "k \<in> fst ` set (settled p) \<or> k \<in> q_requestId ` set (queue p)" unfolding m by auto
    then show ?thesis using D(5) [of k] D(2) by (auto simp: terminate_def)
  qed
qed

lemma requests_ok_step: "requests_ok p \<Longrightarrow> requests_ok (step p ev)"
proof (cases ev)
  case (Pair now e)
  assume ok: "requests_ok p"
  show ?thesis
  proof (cases e)
    case (Timeout t)
    show ?thesis
    proof (cases "timers p t")
      case None
      then show ?thesis unfolding Pair Timeout using ok by simp
    next
      case (Some c)
      have c: "t_promise c = t_requestId c" using requests_okD(4) [OF ok Some] .
      have "requests_ok (p\<lparr>timers := (timers p)(t := None)\<rparr>)"
        using ok unfolding requests_ok_def by (auto split: if_splits)
      from requests_ok_timeout_callback [OF this c] show ?thesis
        unfolding Pair Timeout using Some ok by simp
    qed
  qed (auto simp: Pair ok requests_ok_generatePoints requests_ok_setMaxPoolSize
        requests_ok_worker_onmessage worker_onmessageerror_def requests_ok_worker_onerror
        requests_ok_cleanupIdleWorkers requests_ok_terminate)
qed

lemma requests_ok_constructor: "requests_ok (constructor m now)"
  by (simp add: constructor_def initialize_def startIdleCleanup_def createWorker_def requests_ok_def Let_def)

lemma requests_ok_run: "requests_ok (run (constructor m now) evs)"
proof -
  have "requests_ok p \<Longrightarrow> requests_ok (run p evs)" for p
    unfolding run_def by (induction evs arbitrary: p) (simp_all add: requests_ok_step)
  then show ?thesis using requests_ok_constructor .
qed

subsection \<open>Settling\<close>

lemma dispatchToWorker_settled: "settled (dispatchToWorker now w req p) = settled p"
  by (simp add: dispatchToWorker_def Let_def)

lemma processQueue_settled: "settled (processQueue now p) = settled p"
proof (cases "queue p")
  case Nil
  then show ?thesis by (simp add: processQueue_def)
next
  case (Cons req rest)
  obtain r p' where g: "getAvailableWorker now p = (r, p')" by (cases "getAvailableWorker now p")
  from getAvailableWorker_requests(3) [OF g] show ?thesis
    using Cons g by (cases r) (simp_all add: processQueue_def dispatchToWorker_settled)
qed

lemma generatePoints_settled: "settled (generatePoints n l c f now p) = settled p"
proof -
  let ?p1 = "p\<lparr>requestIdCounter := Suc (requestIdCounter p)\<rparr>"
  obtain r p' where g: "getAvailableWorker now ?p1 = (r, p')" by (cases "getAvailableWorker now ?p1")
  from getAvailableWorker_requests(3) [OF g] show ?thesis
    using g by (cases r) (simp_all add: generatePoints_def Let_def dispatchToWorker_settled)
qed

lemma refill_settled:
  "settled (if length (workers p) < minWorkers p then snd (createWorker now p) else p) = settled p"
  by (simp add: createWorker_requests)

lemma settles_pending_worker_onmessage:
  assumes ok: "requests_ok p"
  shows "settles_pending p (worker_onmessage w d now p)"
proof (cases "map_of (pendingRequests p) (response_requestId d)")
  case None
  then show ?thesis by (simp add: worker_onmessage_def Let_def processQueue_settled settles_pending_def)
next
  case (Some e)
  note pe = pending_promise [OF ok Some]
  show ?thesis
    unfolding settles_pending_def worker_onmessage_def Let_def using Some pe
    by (auto simp: processQueue_settled settle_def split: WorkerResponse.split option.split)
qed

lemma settles_pending_worker_onerror:
  assumes ok: "requests_ok p"
  shows "settles_pending p (worker_onerror w now p)"
proof -
  define p1 where "p1 = (case workerToRequestId p w of
                  None \<Rightarrow> p
                | Some requestId \<Rightarrow>
                    (case map_of (pendingRequests p) requestId of
                       None \<Rightarrow> p
                     | Some entry \<Rightarrow>
                         settle (p_promise entry) (Rejected ''Worker crashed while processing request'')
                           (p\<lparr>pendingRequests := AList.delete requestId (pendingRequests p),
                              timers := clearTimeout (p_timeoutId entry) (timers p)\<rparr>)))"
  have a: "settles_pending p p1"
    unfolding p1_def settles_pending_def
    by (auto simp: settle_def split: option.split dest: pending_promise [OF ok])
  have "settled (worker_onerror w now p) = settled p1"
    unfolding worker_onerror_def Let_def p1_def [symmetric]
    by (simp add: processQueue_settled createWorker_requests)
  with a show ?thesis by (simp add: settles_pending_def)
qed

lemma settles_pending_timeout_callback:
  assumes c: "t_promise c = t_requestId c"
  shows "settles_pending p (timeout_callback c now p)"
  unfolding settles_pending_def timeout_callback_def Let_def
  by (auto simp: processQueue_settled createWorker_requests removeWorker_def settle_def c)

lemma settles_pending_step:
  assumes ok: "requests_ok p" and nt: "snd ev \<noteq> Terminate"
  shows "settles_pending p (step p ev)"
proof (cases ev)
  case (Pair now e)
  show ?thesis
  proof (cases e)
    case (GeneratePoints n l c f)
    then show ?thesis unfolding Pair by (simp add: settles_pending_def generatePoints_settled)
  next
    case (SetMaxPoolSize n)
    then show ?thesis unfolding Pair setMaxPoolSize_eq
      by (simp add: settles_pending_def setMaxPoolSize_eq shrink_idle_frame)
  next
    case (Message w d)
    then show ?thesis unfolding Pair by (simp add: settles_pending_worker_onmessage [OF ok])
  next
    case (MessageError w)
    then show ?thesis unfolding Pair
      by (simp add: worker_onmessageerror_def settles_pending_worker_onerror [OF ok])
  next
    case (Crash w)
    then show ?thesis unfolding Pair by (simp add: settles_pending_worker_onerror [OF ok])
  next
    case (Timeout t)
    show ?thesis
    proof (cases "timers p t")
      case None
      then show ?thesis unfolding Pair Timeout by (simp add: settles_pending_def)
    next
      case (Some c)
      have c: "t_promise c = t_requestId c" using requests_okD(4) [OF ok Some] .
      from settles_pending_timeout_callback [OF c, of "p\<lparr>timers := (timers p)(t := None)\<rparr>" now]
      show ?thesis unfolding Pair Timeout using Some by (simp add: settles_pending_def)
    qed
  next
    case CleanupTick
    then show ?thesis unfolding Pair
      by (simp add: settles_pending_def cleanupIdleWorkers_def remove_collected_requests)
  next
    case Terminate
    with nt Pair show ?thesis by simp
  qed
qed

text \<open>
  C10. In every state \<open>p\<close> that a pool reaches from its construction, by any events: no
  promise has been settled twice. Every event other than the shutdown settles nothing or
  exactly one promise, and then that of a request that has an entry in the pending map before
  the event and has none after it, and that was not settled before: the success and error
  message, the timeout and the crash all look the entry up and delete it first, so a late
  timeout, a second message or a crash after the settlement finds no entry. The shutdown
  rejects the queued requests.
\<close>

theorem C10_settled_once:
  "let p = run (constructor m now0) evs in
     distinct (map fst (settled p)) \<and>
     (\<forall>ev. snd ev \<noteq> Terminate \<longrightarrow>
        settled (step p ev) = settled p \<or>
        (\<exists>r out. settled (step p ev) = settled p @ [(r, out)] \<and>
           r \<notin> fst ` set (settled p) \<and>
           map_of (pendingRequests p) r \<noteq> None \<and>
           map_of (pendingRequests (step p ev)) r = None)) \<and>
     (\<forall>now. settled (step p (now, Terminate))
        = settled p @ map (\<lambda>request. (q_promise request, Rejected ''Worker pool terminated'')) (queue p))"
proof -
  define p where "p = run (constructor m now0) evs"
  have ok: "requests_ok p" unfolding p_def by (rule requests_ok_run)
  have d: "distinct (map fst (settled p))" using requests_okD(6) [OF ok] .
  have s: "settled (step p ev) = settled p \<or>
        (\<exists>r out. settled (step p ev) = settled p @ [(r, out)] \<and>
           r \<notin> fst ` set (settled p) \<and>
           map_of (pendingRequests p) r \<noteq> None \<and>
           map_of (pendingRequests (step p ev)) r = None)" if nt: "snd ev \<noteq> Terminate" for ev
  proof -
    have ok': "requests_ok (step p ev)" using ok by (rule requests_ok_step)
    from settles_pending_step [OF ok nt] show ?thesis
      unfolding settles_pending_def
    proof
      assume "settled (step p ev) = settled p"
      then show ?thesis by simp
    next
      assume "\<exists>r out. settled (step p ev) = settled p @ [(r, out)] \<and> map_of (pendingRequests p) r \<noteq> None"
      then obtain r out where r: "settled (step p ev) = settled p @ [(r, out)]"
        "map_of (pendingRequests p) r \<noteq> None" by blast
      from r(2) obtain e where "map_of (pendingRequests p) r = Some e" by blast
      from requests_okD(3) [OF ok this] have 1: "r \<notin> fst ` set (settled p)" by simp
      have "r \<in> fst ` set (settled (step p ev))" unfolding r(1) by simp
      have 2: "map_of (pendingRequests (step p ev)) r = None"
      proof (cases "map_of (pendingRequests (step p ev)) r")
        case None then show ?thesis .
      next
        case (Some e')
        from requests_okD(3) [OF ok' Some] \<open>r \<in> fst ` set (settled (step p ev))\<close> show ?thesis by simp
      qed
      from r 1 2 show ?thesis by blast
    qed
  qed
  have t: "settled (step p (now, Terminate))
        = settled p @ map (\<lambda>request. (q_promise request, Rejected ''Worker pool terminated'')) (queue p)" for now
    by (simp add: terminate_def)
  show ?thesis unfolding Let_def p_def [symmetric] using d s t by blast
qed

theorem C10_settled_once_witness:
  "let p = run (constructor 4 0) [(0, GeneratePoints 100 1 ''linear'' Float32)];
       p1 = step p (20000, Timeout 1);
       p2 = step p1 (20001, Message 0 (ErrorResponse \<lparr>er_requestId = 1, er_error = ''late''\<rparr>));
       p3 = step p2 (20002, Crash 0)
   in snd (20000 :: int, Timeout 1) \<noteq> Terminate \<and>
      settled p = [] \<and> map fst (pendingRequests p) = [1] \<and>
      settled p1 = [(1, Rejected ''Worker request timed out'')] \<and>
      map_of (pendingRequests p1) 1 = None \<and>
      settled p2 = settled p1 \<and> settled p3 = settled p1 \<and>
      distinct (map fst (settled p3))"
proof -
  define p where "p = run (constructor 4 0) [(0, GeneratePoints 100 1 ''linear'' Float32)]"
  define p3 where "p3 = run (constructor 4 0)
     [(0, GeneratePoints 100 1 ''linear'' Float32), (20000, Timeout 1),
      (20001, Message 0 (ErrorResponse \<lparr>er_requestId = 1, er_error = ''late''\<rparr>)), (20002, Crash 0)]"
  have r: "p3 = step (step (step p (20000, Timeout 1))
      (20001, Message 0 (ErrorResponse \<lparr>er_requestId = 1, er_error = ''late''\<rparr>))) (20002, Crash 0)"
    unfolding p3_def p_def by (simp add: run_def)
  have nt: "snd (20000 :: int, Timeout 1) \<noteq> Terminate" by simp
  have e0: "settled p = []" "map fst (pendingRequests p) = [1]"
    unfolding p_def by (simp_all add: pool_eval)
  have e1: "settled (step p (20000, Timeout 1)) = [(1, Rejected ''Worker request timed out'')]"
    unfolding p_def by (simp add: pool_eval requestTimeoutMs_def)
  have e2: "settled (step (step p (20000, Timeout 1))
      (20001, Message 0 (ErrorResponse \<lparr>er_requestId = 1, er_error = ''late''\<rparr>)))
        = [(1, Rejected ''Worker request timed out'')]"
    unfolding p_def by (simp add: pool_eval requestTimeoutMs_def)
  have e3: "settled p3 = [(1, Rejected ''Worker request timed out'')]"
    unfolding r p_def by (simp add: pool_eval requestTimeoutMs_def)
  note t = C10_settled_once [of 4 0 "[(0, GeneratePoints 100 1 ''linear'' Float32)]", unfolded Let_def, folded p_def]
  from t nt have "settled (step p (20000, Timeout 1)) = settled p \<or>
        (\<exists>r out. settled (step p (20000, Timeout 1)) = settled p @ [(r, out)] \<and>
           r \<notin> fst ` set (settled p) \<and>
           map_of (pendingRequests p) r \<noteq> None \<and>
           map_of (pendingRequests (step p (20000, Timeout 1))) r = None)"
    by blast
  with e0 e1 have m: "map_of (pendingRequests (step p (20000, Timeout 1))) 1 = None" by auto
  from C10_settled_once [of 4 0 "[(0, GeneratePoints 100 1 ''linear'' Float32), (20000, Timeout 1),
      (20001, Message 0 (ErrorResponse \<lparr>er_requestId = 1, er_error = ''late''\<rparr>)), (20002, Crash 0)]",
      unfolded Let_def, folded p3_def]
  have d: "distinct (map fst (settled p3))" by blast
  show ?thesis
    unfolding Let_def p_def [symmetric] r [symmetric] using nt e0 e1 e2 e3 m d by simp
qed

subsection \<open>The idle sweep\<close>

lemma remove_collected_workers:
  "distinct (workers p) \<Longrightarrow> distinct cs \<Longrightarrow> set cs \<subseteq> set (workers p) \<Longrightarrow>
     workers (remove_collected cs p)
        = filter (\<lambda>w. w \<notin> set (take (length (workers p) - minWorkers p) cs)) (workers p) \<and>
     terminatedWorkers (remove_collected cs p)
        = terminatedWorkers p @ take (length (workers p) - minWorkers p) cs"
proof (induction cs arbitrary: p)
  case Nil
  then show ?case by simp
next
  case (Cons c cs)
  show ?case
  proof (cases "length (workers p) \<le> minWorkers p")
    case True
    then show ?thesis by simp
  next
    case False
    let ?p1 = "removeWorker c p"
    have c: "c \<in> set (workers p)" "c \<notin> set cs" "distinct cs" using Cons.prems by simp_all
    have l: "Suc (length (workers ?p1)) = length (workers p)"
      using length_filter_neq_distinct [OF Cons.prems(1) c(1)] by (simp add: removeWorker_def)
    have d1: "distinct (workers ?p1)" using Cons.prems(1) by (simp add: removeWorker_def)
    have s1: "set cs \<subseteq> set (workers ?p1)" using Cons.prems(3) c(2) by (auto simp: removeWorker_def)
    from False l obtain k where k: "length (workers p) - minWorkers p = Suc k"
      "length (workers ?p1) - minWorkers ?p1 = k"
      by (cases "length (workers p) - minWorkers p") (auto simp: removeWorker_def)
    note ih = Cons.IH [OF d1 c(3) s1, unfolded k(2)]
    have w: "workers (remove_collected (c # cs) p) = filter (\<lambda>w. w \<notin> set (take (Suc k) (c # cs))) (workers p)"
      using False ih by (auto simp: removeWorker_def intro: filter_cong)
    have t: "terminatedWorkers (remove_collected (c # cs) p) = terminatedWorkers p @ take (Suc k) (c # cs)"
      using False ih by (simp add: removeWorker_def)
    from w t show ?thesis unfolding k(1) by simp
  qed
qed

lemma collect_idle_expired:
  "collect_idle now p (workers p) =
     (if length (workers p) \<le> minWorkers p then []
      else filter (\<lambda>w. idle_time now p w > idleTimeout) (idle_units p))"
  by (simp add: collect_idle_eq idle_units_def conj_commute)

lemma cleanup_removed:
  fixes now :: int
  assumes u: "units_ok p"
  defines "removed \<equiv> take (length (workers p) - minWorkers p)
                        (filter (\<lambda>w. idle_time now p w > idleTimeout) (idle_units p))"
  shows "workers (cleanupIdleWorkers now p) = filter (\<lambda>w. w \<notin> set removed) (workers p)"
    and "terminatedWorkers (cleanupIdleWorkers now p) = terminatedWorkers p @ removed"
proof -
  let ?cs = "collect_idle now p (workers p)"
  have d: "distinct (workers p)" using u by (simp add: units_ok_def)
  have dc: "distinct ?cs" using d by (simp add: collect_idle_eq)
  have sc: "set ?cs \<subseteq> set (workers p)" by (auto simp: collect_idle_eq)
  have r: "take (length (workers p) - minWorkers p) ?cs = removed"
    unfolding removed_def collect_idle_expired by simp
  from remove_collected_workers [OF d dc sc]
  show "workers (cleanupIdleWorkers now p) = filter (\<lambda>w. w \<notin> set removed) (workers p)"
    and "terminatedWorkers (cleanupIdleWorkers now p) = terminatedWorkers p @ removed"
    unfolding cleanupIdleWorkers_def r by simp_all
qed

lemma cleanup_not_inspected:
  assumes "\<forall>w. w \<notin> activeWorkers p \<longrightarrow> lu w = workerLastUsed p w"
  shows "workers (cleanupIdleWorkers now (p\<lparr>workerLastUsed := lu\<rparr>)) = workers (cleanupIdleWorkers now p)"
proof -
  have c: "collect_idle now (p\<lparr>workerLastUsed := lu\<rparr>) ws = collect_idle now p ws" for ws
    using assms by (induction ws) (simp_all add: Let_def)
  have r: "workers q = workers q' \<Longrightarrow> minWorkers q = minWorkers q' \<Longrightarrow>
      workers (remove_collected cs q) = workers (remove_collected cs q')" for cs and q q' :: WorkerPool
  proof (induction cs arbitrary: q q')
    case Nil
    then show ?case by simp
  next
    case (Cons c cs)
    have "workers (remove_collected cs (removeWorker c q)) = workers (remove_collected cs (removeWorker c q'))"
      by (rule Cons.IH) (simp_all add: removeWorker_def Cons.prems)
    then show ?case using Cons.prems by simp
  qed
  have "workers (remove_collected (collect_idle now p (workers p)) (p\<lparr>workerLastUsed := lu\<rparr>))
      = workers (remove_collected (collect_idle now p (workers p)) p)"
    by (rule r) simp_all
  then show ?thesis unfolding cleanupIdleWorkers_def c by simp
qed

text \<open>
  C9. In every state \<open>p\<close> that a pool reaches from its construction, a sweep at \<open>now\<close>
  removes, of the idle units that have been idle for more than 30000 ms, taken in the pool's
  order, the first ones, as many as the pool has units above its floor, and terminates each:
  all of them when the pool is still above the floor afterwards, none when the pool is at or
  below the floor. No active unit is removed, and the time of last use of an active unit has
  no influence on the result; the active set, the queue, the pending entries and the settled
  promises are unchanged.
\<close>

theorem C9_idle_sweep:
  "let p = run (constructor m now0) evs;
       p' = cleanupIdleWorkers now p;
       expired = filter (\<lambda>w. idle_time now p w > 30000) (idle_units p);
       removed = take (length (workers p) - minWorkers p) expired
   in workers p' = filter (\<lambda>w. w \<notin> set removed) (workers p) \<and>
      terminatedWorkers p' = terminatedWorkers p @ removed \<and>
      length (workers p') = length (workers p) - length removed \<and>
      set removed \<inter> activeWorkers p = {} \<and>
      activeWorkers p' = activeWorkers p \<and>
      queue p' = queue p \<and> pendingRequests p' = pendingRequests p \<and> settled p' = settled p \<and>
      (length (workers p) \<le> minWorkers p \<longrightarrow> workers p' = workers p) \<and>
      (minWorkers p < length (workers p') \<longrightarrow> removed = expired) \<and>
      (\<forall>lu. (\<forall>w. w \<notin> activeWorkers p \<longrightarrow> lu w = workerLastUsed p w) \<longrightarrow>
          workers (cleanupIdleWorkers now (p\<lparr>workerLastUsed := lu\<rparr>)) = workers p')"
proof -
  define p where "p = run (constructor m now0) evs"
  define expired where "expired = filter (\<lambda>w. idle_time now p w > 30000) (idle_units p)"
  define removed where "removed = take (length (workers p) - minWorkers p) expired"
  have u: "units_ok p" unfolding p_def by (rule units_ok_run)
  have d: "distinct (workers p)" using u by (simp add: units_ok_def)
  have ex: "set expired \<subseteq> set (workers p) - activeWorkers p" "distinct expired"
    unfolding expired_def idle_units_def using d by auto
  have rm: "set removed \<subseteq> set expired" "distinct removed"
    unfolding removed_def using ex(2) by (auto dest: in_set_takeD)
  have w: "workers (cleanupIdleWorkers now p) = filter (\<lambda>w. w \<notin> set removed) (workers p)"
    and t: "terminatedWorkers (cleanupIdleWorkers now p) = terminatedWorkers p @ removed"
    using cleanup_removed [OF u, of now] unfolding removed_def expired_def idleTimeout_def by simp_all
  have "length (filter (\<lambda>w. w \<in> set removed) (workers p)) = length removed"
  proof -
    have "set (filter (\<lambda>w. w \<in> set removed) (workers p)) = set removed" using rm(1) ex(1) by auto
    moreover have "distinct (filter (\<lambda>w. w \<in> set removed) (workers p))" using d by simp
    ultimately show ?thesis using rm(2) by (metis distinct_card)
  qed
  with sum_length_filter_compl [of "\<lambda>w. w \<in> set removed" "workers p"]
  have l: "length (workers (cleanupIdleWorkers now p)) = length (workers p) - length removed"
    unfolding w by simp
  have a: "set removed \<inter> activeWorkers p = {}" using rm(1) ex(1) by auto
  have f: "activeWorkers (cleanupIdleWorkers now p) = activeWorkers p"
    "queue (cleanupIdleWorkers now p) = queue p"
    "pendingRequests (cleanupIdleWorkers now p) = pendingRequests p"
    "settled (cleanupIdleWorkers now p) = settled p"
    by (simp_all add: cleanupIdleWorkers_def remove_collected_requests)
  have n: "length (workers p) \<le> minWorkers p \<Longrightarrow> workers (cleanupIdleWorkers now p) = workers p"
    unfolding w removed_def by simp
  have al: "removed = expired" if "minWorkers p < length (workers (cleanupIdleWorkers now p))"
  proof -
    have "length removed = min (length expired) (length (workers p) - minWorkers p)"
      unfolding removed_def by simp
    with that l have "length expired \<le> length (workers p) - minWorkers p" by linarith
    then show ?thesis unfolding removed_def by simp
  qed
  have ni: "\<forall>lu. (\<forall>w. w \<notin> activeWorkers p \<longrightarrow> lu w = workerLastUsed p w) \<longrightarrow>
          workers (cleanupIdleWorkers now (p\<lparr>workerLastUsed := lu\<rparr>)) = workers (cleanupIdleWorkers now p)"
    using cleanup_not_inspected by blast
  show ?thesis
    unfolding Let_def p_def [symmetric] expired_def [symmetric] removed_def [symmetric]
    using w t l a f n al ni by blast
qed

theorem C9_idle_sweep_witness:
  "let evs = [(0, GeneratePoints 100 1 ''linear'' Float32),
              (1, GeneratePoints 100 1 ''linear'' Float32),
              (10, Message 0 (ErrorResponse \<lparr>er_requestId = 1, er_error = ''x''\<rparr>)),
              (10, Message 1 (ErrorResponse \<lparr>er_requestId = 2, er_error = ''x''\<rparr>))];
       p = run (constructor 4 0) evs;
       p' = cleanupIdleWorkers 40011 p;
       p0 = run (constructor 4 0) []
   in workers p = [0, 1] \<and> activeWorkers p = {} \<and> minWorkers p = 1 \<and>
      idle_time 40011 p 0 = 40001 \<and> idle_time 40011 p 1 = 40001 \<and>
      workers p' = [1] \<and> terminatedWorkers p' = terminatedWorkers p @ [0] \<and>
      length (workers p0) \<le> minWorkers p0 \<and> workers (cleanupIdleWorkers 40011 p0) = workers p0"
proof -
  define evs where "evs = [(0 :: int, GeneratePoints 100 1 ''linear'' Float32),
              (1, GeneratePoints 100 1 ''linear'' Float32),
              (10, Message 0 (ErrorResponse \<lparr>er_requestId = 1, er_error = ''x''\<rparr>)),
              (10, Message 1 (ErrorResponse \<lparr>er_requestId = 2, er_error = ''x''\<rparr>))]"
  define p where "p = run (constructor 4 0) evs"
  define p0 where "p0 = run (constructor 4 0) []"
  have e: "workers p = [0, 1]" "activeWorkers p = {}" "minWorkers p = 1"
    "workerLastUsed p 0 = Some 10" "workerLastUsed p 1 = Some 10"
    unfolding p_def evs_def by (auto simp add: pool_eval)
  have i: "idle_time 40011 p 0 = 40001" "idle_time 40011 p 1 = 40001"
    using e(4,5) by (simp_all add: idle_time_def)
  have ex: "take (length (workers p) - minWorkers p)
              (filter (\<lambda>w. idle_time 40011 p w > 30000) (idle_units p)) = [0]"
    using i by (simp add: idle_units_def e)
  note t = C9_idle_sweep [of 4 0 evs 40011, unfolded Let_def, folded p_def, unfolded ex]
  from t have w: "workers (cleanupIdleWorkers 40011 p) = filter (\<lambda>w. w \<notin> set [0]) (workers p)"
    and tw: "terminatedWorkers (cleanupIdleWorkers 40011 p) = terminatedWorkers p @ [0]"
    by blast+
  from w have w': "workers (cleanupIdleWorkers 40011 p) = [1]" by (simp add: e)
  have e0: "workers p0 = [0]" "minWorkers p0 = 1" unfolding p0_def by (simp_all add: pool_eval)
  then have h: "length (workers p0) \<le> minWorkers p0" by simp
  from C9_idle_sweep [of 4 0 "[]" 40011, unfolded Let_def, folded p0_def] h
  have n: "workers (cleanupIdleWorkers 40011 p0) = workers p0" by blast
  show ?thesis
    unfolding Let_def evs_def [symmetric] p_def [symmetric] p0_def [symmetric]
    using e i w' tw h n by simp
qed

subsection \<open>Clamping of the counts\<close>

lemma getAvailableWorker_posted:
  assumes "getAvailableWorker now p = (r, p')"
  shows "posted p' = posted p"
  using getAvailableWorker_cases [OF assms] by auto

lemma generatePoints_request:
  "(\<exists>w. posted (generatePoints n l c f now p) = posted p @
         [(w, \<lparr>rq_requestId = Suc (requestIdCounter p), rq_numPoints = max 10 (min 10000000 n),
               rq_numLines = max 1 (min 1000 l), rq_curveType = c, rq_dataFormat = f\<rparr>)]
      \<and> queue (generatePoints n l c f now p) = queue p) \<or>
   (queue (generatePoints n l c f now p) = queue p @
         [\<lparr>q_numPoints = max 10 (min 10000000 n), q_numLines = max 1 (min 1000 l), q_curveType = c,
           q_dataFormat = f, q_requestId = Suc (requestIdCounter p), q_promise = Suc (requestIdCounter p)\<rparr>]
      \<and> posted (generatePoints n l c f now p) = posted p)"
proof -
  let ?p1 = "p\<lparr>requestIdCounter := Suc (requestIdCounter p)\<rparr>"
  obtain r p' where g: "getAvailableWorker now ?p1 = (r, p')" by (cases "getAvailableWorker now ?p1")
  note f = getAvailableWorker_requests(1) [OF g] getAvailableWorker_posted [OF g]
  show ?thesis
  proof (cases r)
    case None
    then show ?thesis using g f by (simp add: generatePoints_def Let_def)
  next
    case (Some w)
    then show ?thesis using g f by (simp add: generatePoints_def Let_def dispatchToWorker_def)
  qed
qed

lemma clamp_points_idem: "clamp_points (max 10 (min 10000000 n)) = max 10 (min 10000000 n)"
proof -
  have "to_int32 (max 10 (min 10000000 n)) = max 10 (min 10000000 n)"
    by (rule to_int32_small) simp_all
  then show ?thesis by (simp add: clamp_points_def MAX_POINTS_def)
qed

lemma clamp_lines_idem: "clamp_lines (max 1 (min 1000 n)) = max 1 (min 1000 n)"
proof -
  have "to_int32 (max 1 (min 1000 n)) = max 1 (min 1000 n)"
    by (rule to_int32_small) simp_all
  then show ?thesis by (simp add: clamp_lines_def MAX_LINES_def)
qed

lemma clamp_points_over: "clamp_points 10000001 = 10000000"
  by (simp add: clamp_points_def MAX_POINTS_def to_int32_small)

lemma clamp_points_clamp: "clamp_points (clamp_points n) = clamp_points n"
proof -
  have "to_int32 (clamp_points n) = clamp_points n"
    using clamp_points_range [of n] by (intro to_int32_small) simp_all
  then show ?thesis using clamp_points_range [of n] by (simp add: clamp_points_def [of "clamp_points n"] MAX_POINTS_def)
qed

lemma clamp_lines_clamp: "clamp_lines (clamp_lines n) = clamp_lines n"
proof -
  have "to_int32 (clamp_lines n) = clamp_lines n"
    using clamp_lines_range [of n] by (intro to_int32_small) simp_all
  then show ?thesis using clamp_lines_range [of n] by (simp add: clamp_lines_def [of "clamp_lines n"] MAX_LINES_def)
qed

lemma onmessage_clamped:
  "onmessage rt req t s
     = onmessage rt (req\<lparr>rq_numPoints := clamp_points (rq_numPoints req),
                          rq_numLines := clamp_lines (rq_numLines req)\<rparr>) t s"
proof -
  let ?req' = "req\<lparr>rq_numPoints := clamp_points (rq_numPoints req),
                    rq_numLines := clamp_lines (rq_numLines req)\<rparr>"
  have f: "clamp_points (rq_numPoints ?req') = clamp_points (rq_numPoints req)"
    "clamp_lines (rq_numLines ?req') = clamp_lines (rq_numLines req)"
    "rq_requestId ?req' = rq_requestId req" "rq_curveType ?req' = rq_curveType req"
    "rq_dataFormat ?req' = rq_dataFormat req"
    by (simp_all add: clamp_points_clamp clamp_lines_clamp)
  have e: "estBytes ?req' = estBytes req"
    unfolding estBytes_def f ..
  have sr: "success_response ?req' p l gd = success_response req p l gd" for p l gd
    by (simp add: success_response_def)
  have "try_body rt ?req' t s = try_body rt req t s"
    unfolding try_body_def Let_def f e sr ..
  then show ?thesis unfolding onmessage_def f by simp
qed

lemma onmessage_success_shape:
  assumes "onmessage rt req t s = ([SuccessResponse r], st)"
  shows "sr_length r = clamp_points (rq_numPoints req) \<and> sr_numLines r = clamp_lines (rq_numLines req) \<and>
      st = snd (generateData rt (nat (clamp_points (rq_numPoints req))) (nat (clamp_lines (rq_numLines req)))
                 (rq_curveType req) (rq_dataFormat req)
                 (seedRng (if request_seed (rq_requestId req) t = 0 then 1
                           else request_seed (rq_requestId req) t))) \<and>
      (rq_dataFormat req \<noteq> Json \<longrightarrow>
         (\<exists>x ys. sr_x r = Some x \<and> length x = nat (clamp_points (rq_numPoints req)) \<and>
                  sr_ys r = YBuffers ys \<and> length ys = nat (clamp_lines (rq_numLines req)) \<and>
                  (\<forall>y\<in>set ys. length y = nat (clamp_points (rq_numPoints req))))) \<and>
      (rq_dataFormat req = Json \<longrightarrow>
         (\<exists>records. sr_ys r = YJson records \<and> length records = nat (clamp_points (rq_numPoints req)) \<and>
                  (\<forall>record\<in>set records. length (snd record) = nat (clamp_lines (rq_numLines req)))))"
proof (cases "estBytes req > MAX_BYTES")
  case True
  with assms show ?thesis by (simp add: onmessage_too_large)
next
  case False
  then have ok: "estBytes req \<le> MAX_BYTES" by simp
  define rng0 where "rng0 = seedRng (if request_seed (rq_requestId req) t = 0 then 1
                              else request_seed (rq_requestId req) t)"
  define P where "P = nat (clamp_points (rq_numPoints req))"
  define L where "L = nat (clamp_lines (rq_numLines req))"
  define out where "out = generateData rt P L (rq_curveType req) (rq_dataFormat req) rng0"
  have d: "onmessage rt req t s =
            (case fst out of
               Inr gd \<Rightarrow> ([SuccessResponse (success_response req (clamp_points (rq_numPoints req))
                                               (clamp_lines (rq_numLines req)) gd)], snd out)
             | Inl message \<Rightarrow>
                 ([ErrorResponse \<lparr>er_requestId = rq_requestId req, er_error = message\<rparr>], snd out))"
    unfolding onmessage_ok [OF ok] Let_def out_def rng0_def P_def L_def ..
  from assms d obtain gd where gd: "fst out = Inr gd"
    and r: "r = success_response req (clamp_points (rq_numPoints req)) (clamp_lines (rq_numLines req)) gd"
    and st: "st = snd out"
    by (cases "fst out") simp_all
  from generateData_draws [of rt P L "rq_curveType req" "rq_dataFormat req" rng0] gd
  have g: "gd_x gd = map (\<lambda>i. store (gd_type gd) (Finite (real i))) [0..<P]"
    "length (gd_ys gd) = L" "\<forall>ys\<in>set (gd_ys gd). length ys = P"
    unfolding out_def [symmetric] by auto
  from g(1) have lx: "length (gd_x gd) = P" by simp
  show ?thesis
    using lx g(2,3) st
    by (simp add: r success_response_def out_def rng0_def P_def L_def)
qed

lemma onmessage_table:
  assumes "estBytes req \<le> MAX_BYTES" "table_curve (select_curve rt (rq_curveType req))"
  shows "\<exists>gd st. onmessage rt req t s =
     ([SuccessResponse (success_response req (clamp_points (rq_numPoints req))
                          (clamp_lines (rq_numLines req)) gd)], st)"
proof -
  define out where "out = generateData rt (nat (clamp_points (rq_numPoints req)))
      (nat (clamp_lines (rq_numLines req))) (rq_curveType req) (rq_dataFormat req)
      (seedRng (if request_seed (rq_requestId req) t = 0 then 1 else request_seed (rq_requestId req) t))"
  have d: "onmessage rt req t s =
            (case fst out of
               Inr gd \<Rightarrow> ([SuccessResponse (success_response req (clamp_points (rq_numPoints req))
                                               (clamp_lines (rq_numLines req)) gd)], snd out)
             | Inl message \<Rightarrow>
                 ([ErrorResponse \<lparr>er_requestId = rq_requestId req, er_error = message\<rparr>], snd out))"
    unfolding onmessage_ok [OF assms(1)] Let_def out_def ..
  from generateData_table [OF assms(2)] obtain gd where "fst out = Inr gd" unfolding out_def by blast
  then show ?thesis unfolding d by auto
qed

text \<open>
  C6. The counts of a request are clamped, the points into 10 .. 10000000 and the lines into
  1 .. 1000, by the pool when the request is submitted (the message posted to a worker, or the
  queued request, carries the clamped counts) and again by the worker, which leaves the
  pool's counts as they are. The worker answers a request as it answers the request with the
  clamped counts; a success response has the clamped counts, and its series have as many
  values as the clamped point count, and are as many as the clamped line count. A point
  count of 10000001 becomes 10000000 at either place; the worker answers such a request as it
  answers the one with 10000000 points: with one 32-bit line the byte estimate is within the
  cap, and the response is a success of length 10000000 when the curve is one of the table or
  the default; with 1000 64-bit lines the estimate is above the cap and the response is the
  size-limit error.
\<close>

theorem C6_counts_clamped:
  "10 \<le> clamp_points numPoints \<and> clamp_points numPoints \<le> 10000000 \<and>
   1 \<le> clamp_lines numLines \<and> clamp_lines numLines \<le> 1000 \<and>
   (let points = max 10 (min 10000000 numPoints);
        lines = max 1 (min 1000 numLines);
        p' = generatePoints numPoints numLines c f now p
    in 10 \<le> points \<and> points \<le> 10000000 \<and> 1 \<le> lines \<and> lines \<le> 1000 \<and>
       clamp_points points = points \<and> clamp_lines lines = lines \<and>
       ((\<exists>w. posted p' = posted p @
              [(w, \<lparr>rq_requestId = Suc (requestIdCounter p), rq_numPoints = points,
                    rq_numLines = lines, rq_curveType = c, rq_dataFormat = f\<rparr>)]
            \<and> queue p' = queue p) \<or>
        (queue p' = queue p @
              [\<lparr>q_numPoints = points, q_numLines = lines, q_curveType = c, q_dataFormat = f,
                q_requestId = Suc (requestIdCounter p), q_promise = Suc (requestIdCounter p)\<rparr>]
            \<and> posted p' = posted p))) \<and>
   onmessage rt req t s
     = onmessage rt (req\<lparr>rq_numPoints := clamp_points (rq_numPoints req),
                          rq_numLines := clamp_lines (rq_numLines req)\<rparr>) t s \<and>
   (\<forall>r st. onmessage rt req t s = ([SuccessResponse r], st) \<longrightarrow>
      sr_length r = clamp_points (rq_numPoints req) \<and> sr_numLines r = clamp_lines (rq_numLines req) \<and>
      st = snd (generateData rt (nat (clamp_points (rq_numPoints req))) (nat (clamp_lines (rq_numLines req)))
                 (rq_curveType req) (rq_dataFormat req)
                 (seedRng (if request_seed (rq_requestId req) t = 0 then 1
                           else request_seed (rq_requestId req) t))) \<and>
      (rq_dataFormat req \<noteq> Json \<longrightarrow>
         (\<exists>x ys. sr_x r = Some x \<and> length x = nat (clamp_points (rq_numPoints req)) \<and>
                  sr_ys r = YBuffers ys \<and> length ys = nat (clamp_lines (rq_numLines req)) \<and>
                  (\<forall>y\<in>set ys. length y = nat (clamp_points (rq_numPoints req))))) \<and>
      (rq_dataFormat req = Json \<longrightarrow>
         (\<exists>records. sr_ys r = YJson records \<and> length records = nat (clamp_points (rq_numPoints req)) \<and>
                  (\<forall>record\<in>set records. length (snd record) = nat (clamp_lines (rq_numLines req)))))) \<and>
   max 10 (min 10000000 (10000001 :: int)) = 10000000 \<and>
   clamp_points 10000001 = 10000000 \<and>
   estBytes \<lparr>rq_requestId = rid, rq_numPoints = 10000001, rq_numLines = 1,
             rq_curveType = c, rq_dataFormat = Float32\<rparr> \<le> MAX_BYTES \<and>
   onmessage rt \<lparr>rq_requestId = rid, rq_numPoints = 10000001, rq_numLines = 1,
                 rq_curveType = c, rq_dataFormat = Float32\<rparr> t s
     = onmessage rt \<lparr>rq_requestId = rid, rq_numPoints = 10000000, rq_numLines = 1,
                     rq_curveType = c, rq_dataFormat = Float32\<rparr> t s \<and>
   (table_curve (select_curve rt c) \<longrightarrow>
      (\<exists>r st. onmessage rt \<lparr>rq_requestId = rid, rq_numPoints = 10000001, rq_numLines = 1,
                            rq_curveType = c, rq_dataFormat = Float32\<rparr> t s = ([SuccessResponse r], st)
               \<and> sr_length r = 10000000)) \<and>
   fst (onmessage rt \<lparr>rq_requestId = rid, rq_numPoints = 10000001, rq_numLines = 1000,
                      rq_curveType = c, rq_dataFormat = Float64\<rparr> t s)
     = [ErrorResponse \<lparr>er_requestId = rid,
                       er_error = too_large_message 80080000000 1000 10000000\<rparr>]"
proof -
  note a = clamp_points_range [of numPoints] clamp_lines_range [of numLines]
  have b: "let points = max 10 (min 10000000 numPoints);
        lines = max 1 (min 1000 numLines);
        p' = generatePoints numPoints numLines c f now p
    in 10 \<le> points \<and> points \<le> 10000000 \<and> 1 \<le> lines \<and> lines \<le> 1000 \<and>
       clamp_points points = points \<and> clamp_lines lines = lines \<and>
       ((\<exists>w. posted p' = posted p @
              [(w, \<lparr>rq_requestId = Suc (requestIdCounter p), rq_numPoints = points,
                    rq_numLines = lines, rq_curveType = c, rq_dataFormat = f\<rparr>)]
            \<and> queue p' = queue p) \<or>
        (queue p' = queue p @
              [\<lparr>q_numPoints = points, q_numLines = lines, q_curveType = c, q_dataFormat = f,
                q_requestId = Suc (requestIdCounter p), q_promise = Suc (requestIdCounter p)\<rparr>]
            \<and> posted p' = posted p))"
    unfolding Let_def
    using generatePoints_request [of numPoints numLines c f now p]
      clamp_points_idem [of numPoints] clamp_lines_idem [of numLines]
    by simp
  note g = onmessage_success_shape [of rt req t s]
  let ?r1 = "\<lparr>rq_requestId = rid, rq_numPoints = 10000001, rq_numLines = 1,
                        rq_curveType = c, rq_dataFormat = Float32\<rparr>"
  let ?r1' = "\<lparr>rq_requestId = rid, rq_numPoints = 10000000, rq_numLines = 1,
                        rq_curveType = c, rq_dataFormat = Float32\<rparr>"
  let ?r2 = "\<lparr>rq_requestId = rid, rq_numPoints = 10000001, rq_numLines = 1000,
                          rq_curveType = c, rq_dataFormat = Float64\<rparr>"
  have cl: "clamp_lines 1 = 1" "clamp_lines 1000 = 1000"
    by (simp_all add: clamp_lines_def MAX_LINES_def to_int32_small)
  have e1: "estBytes ?r1 \<le> MAX_BYTES"
    by (simp add: estBytes_def clamp_points_over cl bytesPerElement_def MAX_BYTES_def)
  have e2: "estBytes ?r2 = 80080000000"
    by (simp add: estBytes_def clamp_points_over cl bytesPerElement_def)
  have q: "onmessage rt ?r1 t s = onmessage rt ?r1' t s"
    using onmessage_clamped [of rt ?r1 t s] by (simp add: clamp_points_over cl)
  have s1: "\<exists>r st. onmessage rt ?r1 t s = ([SuccessResponse r], st) \<and> sr_length r = 10000000"
    if tc: "table_curve (select_curve rt c)"
  proof -
    have "table_curve (select_curve rt (rq_curveType ?r1))" using tc by simp
    from onmessage_table [OF e1 this, of t s] obtain gd st where
      "onmessage rt ?r1 t s = ([SuccessResponse (success_response ?r1 (clamp_points (rq_numPoints ?r1))
                          (clamp_lines (rq_numLines ?r1)) gd)], st)" by blast
    then show ?thesis by (simp add: sr_length_success clamp_points_over)
  qed
  have s2: "fst (onmessage rt ?r2 t s)
     = [ErrorResponse \<lparr>er_requestId = rid, er_error = too_large_message 80080000000 1000 10000000\<rparr>]"
  proof -
    have "estBytes ?r2 > MAX_BYTES" by (simp add: e2 MAX_BYTES_def)
    from onmessage_too_large [OF this, of rt t s] show ?thesis
      by (simp add: e2 clamp_points_over cl)
  qed
  have m: "max 10 (min 10000000 (10000001 :: int)) = 10000000" by simp
  from a b onmessage_clamped [of rt req t s] g m clamp_points_over e1 q s1 s2 show ?thesis by blast
qed

theorem C6_counts_clamped_witness:
  "(\<exists>r st. onmessage example_runtime \<lparr>rq_requestId = 3, rq_numPoints = 3, rq_numLines = 0, rq_curveType = ''linear'',
                       rq_dataFormat = Float32\<rparr> 1700000000000 5 = ([SuccessResponse r], st)
      \<and> sr_length r = 10 \<and> sr_numLines r = 1
      \<and> (\<exists>x ys. sr_x r = Some x \<and> length x = 10 \<and> sr_ys r = YBuffers ys \<and> length ys = 1))
   \<and> (\<exists>r st records. onmessage example_runtime \<lparr>rq_requestId = 3, rq_numPoints = 3, rq_numLines = 0, rq_curveType = ''linear'',
                       rq_dataFormat = Json\<rparr> 1700000000000 5 = ([SuccessResponse r], st)
      \<and> sr_length r = 10 \<and> sr_ys r = YJson records \<and> length records = 10)
   \<and> (\<exists>r st. onmessage example_runtime \<lparr>rq_requestId = 3, rq_numPoints = 10000001, rq_numLines = 1,
                       rq_curveType = ''linear'', rq_dataFormat = Float32\<rparr> 1700000000000 5
                   = ([SuccessResponse r], st)
      \<and> sr_length r = 10000000)"
proof -
  let ?req = "\<lparr>rq_requestId = 3, rq_numPoints = 3, rq_numLines = 0, rq_curveType = ''linear'',
                       rq_dataFormat = Float32\<rparr>"
  let ?reqj = "\<lparr>rq_requestId = 3, rq_numPoints = 3, rq_numLines = 0, rq_curveType = ''linear'',
                       rq_dataFormat = Json\<rparr>"
  have c: "clamp_points 3 = 10" "clamp_lines 0 = 1"
    by (simp_all add: clamp_points_def clamp_lines_def MAX_POINTS_def MAX_LINES_def to_int32_small)
  have e: "estBytes ?req \<le> MAX_BYTES"
    by (simp add: estBytes_def c bytesPerElement_def MAX_BYTES_def)
  have ej: "estBytes ?reqj \<le> MAX_BYTES"
    by (simp add: estBytes_def c bytesPerElement_def MAX_BYTES_def)
  have t: "table_curve (select_curve example_runtime (rq_curveType ?req))" by (simp add: select_linear)
  have tj: "table_curve (select_curve example_runtime (rq_curveType ?reqj))" by (simp add: select_linear)
  from onmessage_table [OF e t, of 1700000000000 5]
  obtain r st where o: "onmessage example_runtime ?req 1700000000000 5 = ([SuccessResponse r], st)"
    by blast
  from C6_counts_clamped [of _ _ _ _ _ _ example_runtime ?req 1700000000000 5] o
  have "sr_length r = clamp_points (rq_numPoints ?req) \<and> sr_numLines r = clamp_lines (rq_numLines ?req)
      \<and> (rq_dataFormat ?req \<noteq> Json \<longrightarrow>
         (\<exists>x ys. sr_x r = Some x \<and> length x = nat (clamp_points (rq_numPoints ?req)) \<and>
                  sr_ys r = YBuffers ys \<and> length ys = nat (clamp_lines (rq_numLines ?req)) \<and>
                  (\<forall>y\<in>set ys. length y = nat (clamp_points (rq_numPoints ?req)))))"
    by blast
  with o c have 1: "\<exists>r st. onmessage example_runtime ?req 1700000000000 5 = ([SuccessResponse r], st)
      \<and> sr_length r = 10 \<and> sr_numLines r = 1
      \<and> (\<exists>x ys. sr_x r = Some x \<and> length x = 10 \<and> sr_ys r = YBuffers ys \<and> length ys = 1)"
    by auto
  from onmessage_table [OF ej tj, of 1700000000000 5]
  obtain rj stj where oj: "onmessage example_runtime ?reqj 1700000000000 5 = ([SuccessResponse rj], stj)"
    by blast
  from C6_counts_clamped [of _ _ _ _ _ _ example_runtime ?reqj 1700000000000 5] oj
  have "sr_length rj = clamp_points (rq_numPoints ?reqj)
      \<and> (rq_dataFormat ?reqj = Json \<longrightarrow>
         (\<exists>records. sr_ys rj = YJson records \<and> length records = nat (clamp_points (rq_numPoints ?reqj)) \<and>
                  (\<forall>record\<in>set records. length (snd record) = nat (clamp_lines (rq_numLines ?reqj)))))"
    by blast
  with oj c have 2: "\<exists>r st records. onmessage example_runtime ?reqj 1700000000000 5 = ([SuccessResponse r], st)
      \<and> sr_length r = 10 \<and> sr_ys r = YJson records \<and> length records = 10"
    by auto
  have tl: "table_curve (select_curve example_runtime ''linear'')" by (simp add: select_linear)
  from C6_counts_clamped [of _ _ "''linear''" _ _ _ example_runtime _ 1700000000000 5 3] tl
  have 3: "\<exists>r st. onmessage example_runtime \<lparr>rq_requestId = 3, rq_numPoints = 10000001, rq_numLines = 1,
                       rq_curveType = ''linear'', rq_dataFormat = Float32\<rparr> 1700000000000 5
                   = ([SuccessResponse r], st)
      \<and> sr_length r = 10000000"
    by blast
  from 1 2 3 show ?thesis by blast
qed

end
